theory Spec2Isabelle
  imports Main "HOL-Library.AList" "HOL-Library.Sublist"
begin

section \<open>Numbers and their decimal text\<close>

text \<open>
  JavaScript and Lua 5.1 numbers are IEEE doubles. JavaScript writes a finite double as
  the shortest decimal that reads back as the same double, and \<open>parseFloat\<close> and Lua's
  \<open>tonumber\<close> read that text back to it. The model identifies a finite number with that
  decimal. A whole number is \<open>Fin n\<close>. A number with a fraction is \<open>Frac q d k\<close>: the
  decimal \<open>(10 q + d) / 10^(k+1)\<close>, with \<open>k + 1\<close> digits after the point, the last of
  which, \<open>d\<close>, is not zero. So every finite number has exactly one representation, and
  equality of numbers is equality of values: 5100.5 is \<open>Frac 5100 D5 0\<close>.

  Comparison is that of the decimals, which orders doubles as IEEE does. Not modelled:
  the rounding of doubles (a text with more digits than a double holds is read digit by
  digit, and \<open>+ 1\<close> is exact, where a double stops counting at \<open>2^53\<close>), the overflow to
  infinity beyond the largest double, and the sign of zero.
\<close>

datatype nzdigit = D1 | D2 | D3 | D4 | D5 | D6 | D7 | D8 | D9

datatype number = NaN | NegInfinity | Fin int | Frac int nzdigit nat | Infinity

primrec nz_val :: "nzdigit \<Rightarrow> int" where
  "nz_val D1 = 1"
| "nz_val D2 = 2"
| "nz_val D3 = 3"
| "nz_val D4 = 4"
| "nz_val D5 = 5"
| "nz_val D6 = 6"
| "nz_val D7 = 7"
| "nz_val D8 = 8"
| "nz_val D9 = 9"

definition nz_of :: "int \<Rightarrow> nzdigit" where
  "nz_of r = [D1, D2, D3, D4, D5, D6, D7, D8, D9] ! nat (r - 1)"

text \<open>
  \<open>m / 10^p\<close> in its one representation: zeros at the end of the mantissa are dropped
  while there are places left.
\<close>

fun decimal :: "int \<Rightarrow> nat \<Rightarrow> number" where
  "decimal m 0 = Fin m"
| "decimal m (Suc p) =
     (if m mod 10 = 0 then decimal (m div 10) p else Frac (m div 10) (nz_of (m mod 10)) p)"

text \<open>
  IEEE comparison: every comparison with \<open>NaN\<close> is false. Two finite numbers are
  compared after both are scaled to whole numbers.
\<close>

fun num_le :: "number \<Rightarrow> number \<Rightarrow> bool" where
  "num_le NaN _ = False"
| "num_le _ NaN = False"
| "num_le NegInfinity _ = True"
| "num_le _ Infinity = True"
| "num_le (Fin a) (Fin b) = (a \<le> b)"
| "num_le (Fin a) (Frac q d k) = (a * 10 ^ Suc k \<le> 10 * q + nz_val d)"
| "num_le (Frac q d k) (Fin b) = (10 * q + nz_val d \<le> b * 10 ^ Suc k)"
| "num_le (Frac q d k) (Frac q' d' k') =
     ((10 * q + nz_val d) * 10 ^ Suc k' \<le> (10 * q' + nz_val d') * 10 ^ Suc k)"
| "num_le _ _ = False"

fun num_less :: "number \<Rightarrow> number \<Rightarrow> bool" where
  "num_less NaN _ = False"
| "num_less _ NaN = False"
| "num_less NegInfinity NegInfinity = False"
| "num_less NegInfinity _ = True"
| "num_less Infinity _ = False"
| "num_less _ Infinity = True"
| "num_less (Fin a) (Fin b) = (a < b)"
| "num_less (Fin a) (Frac q d k) = (a * 10 ^ Suc k < 10 * q + nz_val d)"
| "num_less (Frac q d k) (Fin b) = (10 * q + nz_val d < b * 10 ^ Suc k)"
| "num_less (Frac q d k) (Frac q' d' k') =
     ((10 * q + nz_val d) * 10 ^ Suc k' < (10 * q' + nz_val d') * 10 ^ Suc k)"
| "num_less _ _ = False"

text \<open>\<open>a > b\<close> of the source is \<open>b < a\<close>.\<close>

definition num_gt :: "number \<Rightarrow> number \<Rightarrow> bool" where
  "num_gt a b = num_less b a"

text \<open>Adding a whole number; the special values absorb it.\<close>

fun num_add :: "number \<Rightarrow> int \<Rightarrow> number" where
  "num_add (Fin a) j = Fin (a + j)"
| "num_add (Frac q d k) j = Frac (q + j * 10 ^ k) d k"
| "num_add x _ = x"

subsection \<open>Digits\<close>

definition digit_char :: "nat \<Rightarrow> char" where
  "digit_char n = ''0123456789'' ! n"

definition is_digit :: "char \<Rightarrow> bool" where
  "is_digit c = (c \<in> set ''0123456789'')"

text \<open>The value of a digit character: its code, counted from the code of \<open>0\<close>.\<close>

definition digit_val :: "char \<Rightarrow> nat" where
  "digit_val c = of_char c - 48"

function nat_digits :: "nat \<Rightarrow> string" where
  "nat_digits n = (if n < 10 then [digit_char n] else nat_digits (n div 10) @ [digit_char (n mod 10)])"
  by pat_completeness auto
termination
  by (relation "measure id") auto

declare nat_digits.simps [simp del]

definition digits_val :: "string \<Rightarrow> nat" where
  "digits_val ds = foldl (\<lambda>a c. 10 * a + digit_val c) 0 ds"

definition int_digits :: "int \<Rightarrow> string" where
  "int_digits n = (if n < 0 then ''-'' else '''') @ nat_digits (nat \<bar>n\<bar>)"

text \<open>ASCII white space, which \<open>parseInt\<close>, \<open>parseFloat\<close> and C's \<open>strtod\<close> skip.\<close>

definition is_space :: "char \<Rightarrow> bool" where
  "is_space c = (c \<in> set [CHR '' '', CHR 0x09, CHR 0x0A, CHR 0x0B, CHR 0x0C, CHR 0x0D])"

text \<open>An optional sign: the factor it stands for and the rest of the text.\<close>

fun read_sign :: "string \<Rightarrow> int \<times> string" where
  "read_sign (c # cs) =
     (if c = CHR ''-'' then (-1, cs) else if c = CHR ''+'' then (1, cs) else (1, c # cs))"
| "read_sign [] = (1, [])"

subsection \<open>Writing a number\<close>

text \<open>
  \<open>Number.prototype.toString\<close> on a whole number: plain decimal below \<open>10^21\<close>, exponent
  notation from there on, without the zeros at the end of the digits.
\<close>

definition exp_notation :: "int \<Rightarrow> string" where
  "exp_notation n =
     (let ds = nat_digits (nat \<bar>n\<bar>);
          sig = rev (dropWhile (\<lambda>c. c = CHR ''0'') (rev ds))
      in (if n < 0 then ''-'' else []) @ take 1 sig
           @ (if 1 < length sig then ''.'' @ drop 1 sig else [])
           @ ''e+'' @ nat_digits (length ds - 1))"

text \<open>
  \<open>Number.prototype.toString\<close> on \<open>m / 10^p\<close>, a number with a fraction (\<open>m\<close> does not
  end in zero and \<open>p > 0\<close>). With \<open>n\<close> the number of digits in front of the point: the
  point is set among the digits when \<open>0 < n \<le> 21\<close>; the digits follow \<open>0.\<close> and \<open>-n\<close>
  zeros when \<open>-6 < n \<le> 0\<close>; otherwise the exponent \<open>n - 1\<close> is written out.
\<close>

definition frac_notation :: "int \<Rightarrow> nat \<Rightarrow> string" where
  "frac_notation m p =
     (let ds = nat_digits (nat \<bar>m\<bar>);
          n = int (length ds) - int p
      in (if m < 0 then ''-'' else []) @
         (if 0 < n \<and> n \<le> 21 then take (nat n) ds @ ''.'' @ drop (nat n) ds
          else if - 6 < n \<and> n \<le> 0 then ''0.'' @ replicate (nat (- n)) (CHR ''0'') @ ds
          else take 1 ds @ (if 1 < length ds then ''.'' @ drop 1 ds else [])
                 @ (if 0 < n then ''e+'' else ''e-'') @ nat_digits (nat \<bar>n - 1\<bar>)))"

fun js_toString :: "number \<Rightarrow> string" where
  "js_toString NaN = ''NaN''"
| "js_toString Infinity = ''Infinity''"
| "js_toString NegInfinity = ''-Infinity''"
| "js_toString (Fin n) = (if \<bar>n\<bar> < 10 ^ 21 then int_digits n else exp_notation n)"
| "js_toString (Frac q d k) = frac_notation (10 * q + nz_val d) (Suc k)"

text \<open>
  The text Redis stores for a Lua number passed to \<open>redis.call\<close>. A whole number is
  written in plain decimal (Redis does so up to \<open>2^63\<close>; larger bids are not modelled
  apart), the special values as C prints them. A number with a fraction is printed with
  17 significant digits (with the shortest digits that read back, from Redis 7.2 on): in
  both cases a text that reads back as the same double, for which the model writes the
  decimal of the number.
\<close>

fun redis_arg :: "number \<Rightarrow> string" where
  "redis_arg (Fin n) = int_digits n"
| "redis_arg (Frac q d k) = frac_notation (10 * q + nz_val d) (Suc k)"
| "redis_arg NaN = ''nan''"
| "redis_arg Infinity = ''inf''"
| "redis_arg NegInfinity = ''-inf''"

subsection \<open>Reading a number\<close>

text \<open>
  An optional exponent part \<open>e\<close>, sign, digits: its value (0 when absent) and the rest.
\<close>

definition read_exponent :: "string \<Rightarrow> int \<times> string" where
  "read_exponent cs =
     (case cs of
        [] \<Rightarrow> (0, [])
      | c # cs' \<Rightarrow>
          if c = CHR ''e'' \<or> c = CHR ''E'' then
            (let (sg, r) = read_sign cs'; ds = takeWhile is_digit r
             in if ds = [] then (0, cs) else (sg * int (digits_val ds), dropWhile is_digit r))
          else (0, cs))"

text \<open>\<open>m * 10^e\<close> as a number.\<close>

definition scale10 :: "int \<Rightarrow> int \<Rightarrow> number" where
  "scale10 m e = (if 0 \<le> e then Fin (m * 10 ^ nat e) else decimal m (nat (- e)))"

text \<open>
  A decimal literal after its sign \<open>sg\<close>: digits, an optional point and fraction digits,
  an optional exponent. At least one digit is needed before the exponent.
\<close>

definition read_decimal :: "int \<Rightarrow> string \<Rightarrow> (number \<times> string) option" where
  "read_decimal sg cs =
     (let ip = takeWhile is_digit cs;
          r1 = dropWhile is_digit cs;
          (fp, r2) = (case r1 of
                        [] \<Rightarrow> ([], [])
                      | c # r \<Rightarrow> if c = CHR ''.'' then (takeWhile is_digit r, dropWhile is_digit r)
                                 else ([], r1))
      in if ip = [] \<and> fp = [] then None
         else (let (e, r3) = read_exponent r2
               in Some (scale10 (sg * int (digits_val (ip @ fp))) (e - int (length fp)), r3)))"

text \<open>\<open>parseFloat\<close>; an absent field is \<open>undefined\<close>, which reads as \<open>NaN\<close>.\<close>

definition parseFloat :: "string option \<Rightarrow> number" where
  "parseFloat x =
     (case x of
        None \<Rightarrow> NaN
      | Some s \<Rightarrow>
          (let (sg, r) = read_sign (dropWhile is_space s)
           in if prefix ''Infinity'' r then (if sg < 0 then NegInfinity else Infinity)
              else (case read_decimal sg r of None \<Rightarrow> NaN | Some (v, _) \<Rightarrow> v)))"

text \<open>\<open>parseInt(s, 10)\<close>: sign and leading digits; whatever follows is ignored.\<close>

definition parseInt :: "string option \<Rightarrow> number" where
  "parseInt x =
     (case x of
        None \<Rightarrow> NaN
      | Some s \<Rightarrow>
          (let (sg, r) = read_sign (dropWhile is_space s); ds = takeWhile is_digit r
           in if ds = [] then NaN else Fin (sg * int (digits_val ds))))"

text \<open>
  Lua 5.1 \<open>tonumber\<close> is C's \<open>strtod\<close> on the whole text (trailing white space allowed);
  \<open>strtod\<close> also reads \<open>inf\<close>, \<open>infinity\<close> and \<open>nan\<close> in any letter case. A value that is
  not a string (an absent field arrives as \<open>false\<close>) gives \<open>nil\<close>. Hexadecimal numerals
  are not modelled.
\<close>

definition lower :: "char \<Rightarrow> char" where
  "lower c =
     (case map_of (zip ''ABCDEFGHIJKLMNOPQRSTUVWXYZ'' ''abcdefghijklmnopqrstuvwxyz'') c of
        None \<Rightarrow> c | Some d \<Rightarrow> d)"

definition strtod :: "string \<Rightarrow> (number \<times> string) option" where
  "strtod s =
     (let (sg, r) = read_sign (dropWhile is_space s); l = map lower r
      in if prefix ''infinity'' l then Some (if sg < 0 then NegInfinity else Infinity, drop 8 r)
         else if prefix ''inf'' l then Some (if sg < 0 then NegInfinity else Infinity, drop 3 r)
         else if prefix ''nan'' l then Some (NaN, drop 3 r)
         else read_decimal sg r)"

definition lua_tonumber :: "string option \<Rightarrow> number option" where
  "lua_tonumber x =
     (case x of
        None \<Rightarrow> None
      | Some s \<Rightarrow>
          (case strtod s of
             None \<Rightarrow> None
           | Some (v, rest) \<Rightarrow> if dropWhile is_space rest = [] then Some v else None))"


section \<open>The Redis store\<close>

text \<open>
  Redis holds one hash per auction: a list of fields, each with a text value, under the
  key \<open>auction:item:<id>\<close>. Both levels are association lists, read with \<open>map_of\<close> and
  written with \<open>AList.update\<close>. A key without fields does not exist in Redis.
\<close>

type_synonym hash = "(string \<times> string) list"
type_synonym store = "(string \<times> hash) list"

definition hGetAll :: "store \<Rightarrow> string \<Rightarrow> hash" where
  "hGetAll s key = (case map_of s key of None \<Rightarrow> [] | Some h \<Rightarrow> h)"

definition EXISTS :: "store \<Rightarrow> string \<Rightarrow> bool" where
  "EXISTS s key = (hGetAll s key \<noteq> [])"

definition HGET :: "store \<Rightarrow> string \<Rightarrow> string \<Rightarrow> string option" where
  "HGET s key f = map_of (hGetAll s key) f"

definition HSET :: "store \<Rightarrow> string \<Rightarrow> string \<Rightarrow> string \<Rightarrow> store" where
  "HSET s key f v = AList.update key (AList.update f v (hGetAll s key)) s"

text \<open>\<open>KEYS prefix*\<close>: the existing keys that start with the prefix.\<close>

definition KEYS :: "store \<Rightarrow> string \<Rightarrow> string list" where
  "KEYS s p = filter (\<lambda>k. prefix p k \<and> EXISTS s k) (remdups (map fst s))"

section \<open>The auction store (auction.store.ts)\<close>

record AuctionItem =
  item_id :: string
  title :: string
  startingPrice :: number
  currentBid :: number
  highestBidder :: string
  endsAt :: number
  ended :: bool
  version :: number

definition AUCTION_KEY_PREFIX :: string where
  "AUCTION_KEY_PREFIX = ''auction:item:''"

text \<open>
  A text field that the hash lacks is \<open>undefined\<close> in JavaScript. The code that follows
  only tests it for emptiness, so the model reads it as the empty text.
\<close>

definition text_field :: "hash \<Rightarrow> string \<Rightarrow> string" where
  "text_field redisData f = (case map_of redisData f of None \<Rightarrow> [] | Some v \<Rightarrow> v)"

definition parseAuctionItem :: "hash \<Rightarrow> AuctionItem" where
  "parseAuctionItem redisData =
     \<lparr> item_id = text_field redisData ''id'',
       title = text_field redisData ''title'',
       startingPrice = parseFloat (map_of redisData ''startingPrice''),
       currentBid = parseFloat (map_of redisData ''currentBid''),
       highestBidder = text_field redisData ''highestBidder'',
       endsAt = parseInt (map_of redisData ''endsAt''),
       ended = (map_of redisData ''ended'' = Some ''true''),
       version = parseInt (map_of redisData ''version'') \<rparr>"

definition getAllItems :: "store \<Rightarrow> AuctionItem list" where
  "getAllItems s =
     map parseAuctionItem
       (filter (\<lambda>redisData. text_field redisData ''id'' \<noteq> [])
          (map (hGetAll s) (KEYS s AUCTION_KEY_PREFIX)))"

definition getItemById :: "store \<Rightarrow> string \<Rightarrow> AuctionItem option" where
  "getItemById s itemId =
     (let key = AUCTION_KEY_PREFIX @ itemId; redisData = hGetAll s key
      in if text_field redisData ''id'' = [] then None else Some (parseAuctionItem redisData))"

definition bool_toString :: "bool \<Rightarrow> string" where
  "bool_toString b = (if b then ''true'' else ''false'')"

definition saveItem :: "store \<Rightarrow> AuctionItem \<Rightarrow> store" where
  "saveItem s item =
     (let key = AUCTION_KEY_PREFIX @ item_id item;
          s1 = HSET s key ''id'' (item_id item);
          s2 = HSET s1 key ''title'' (title item);
          s3 = HSET s2 key ''startingPrice'' (js_toString (startingPrice item));
          s4 = HSET s3 key ''currentBid'' (js_toString (currentBid item));
          s5 = HSET s4 key ''highestBidder'' (highestBidder item);
          s6 = HSET s5 key ''endsAt'' (js_toString (endsAt item));
          s7 = HSET s6 key ''ended'' (bool_toString (ended item))
      in HSET s7 key ''version'' (js_toString (version item)))"

definition markAuctionEnded :: "store \<Rightarrow> string \<Rightarrow> store" where
  "markAuctionEnded s itemId = HSET s (AUCTION_KEY_PREFIX @ itemId) ''ended'' ''true''"

section \<open>The arbitration script (placeBid.lua)\<close>

text \<open>
  A Lua comparison or addition with \<open>nil\<close> raises an error, which ends the script; the
  writes made before it stay. The script returns 1 (accepted), 0 (too low) or -1 (ended).
  \<open>ARGV[1]\<close> and \<open>ARGV[3]\<close> are the texts that \<open>placeBidAtomic\<close> passes. Where the
  script writes \<open>bidAmount\<close> it has compared it before, so it is not \<open>nil\<close> there.
\<close>

datatype lua_error = CompareWithNil | ArithmeticOnNil

definition lua_le :: "number option \<Rightarrow> number option \<Rightarrow> lua_error + bool" where
  "lua_le a b = (case (a, b) of (Some x, Some y) \<Rightarrow> Inr (num_le x y) | _ \<Rightarrow> Inl CompareWithNil)"

definition lua_gt :: "number option \<Rightarrow> number option \<Rightarrow> lua_error + bool" where
  "lua_gt a b = (case (a, b) of (Some x, Some y) \<Rightarrow> Inr (num_gt x y) | _ \<Rightarrow> Inl CompareWithNil)"

definition lua_add :: "number option \<Rightarrow> int \<Rightarrow> lua_error + number" where
  "lua_add a k = (case a of Some x \<Rightarrow> Inr (num_add x k) | None \<Rightarrow> Inl ArithmeticOnNil)"

definition placeBid_lua ::
  "store \<Rightarrow> string \<Rightarrow> string \<Rightarrow> string \<Rightarrow> string \<Rightarrow> (lua_error + int) \<times> store" where
  "placeBid_lua s key argv1 argv2 argv3 =
     (let bidAmount = lua_tonumber (Some argv1);
          bidderName = argv2;
          serverTime = lua_tonumber (Some argv3)
      in if \<not> EXISTS s key then (Inr (- 1), s)
         else
           (let currentBid = lua_tonumber (HGET s key ''currentBid'');
                endsAt = lua_tonumber (HGET s key ''endsAt'');
                ended = HGET s key ''ended'';
                version = lua_tonumber (HGET s key ''version'')
            in case (if ended = Some ''true'' then Inr True else lua_gt serverTime endsAt) of
                 Inl err \<Rightarrow> (Inl err, s)
               | Inr True \<Rightarrow>
                   (Inr (- 1), if ended \<noteq> Some ''true'' then HSET s key ''ended'' ''true'' else s)
               | Inr False \<Rightarrow>
                   (case lua_le bidAmount currentBid of
                      Inl err \<Rightarrow> (Inl err, s)
                    | Inr True \<Rightarrow> (Inr 0, s)
                    | Inr False \<Rightarrow>
                        (let s1 = HSET s key ''currentBid''
                                    (case bidAmount of Some b \<Rightarrow> redis_arg b | None \<Rightarrow> []);
                             s2 = HSET s1 key ''highestBidder'' bidderName
                         in case lua_add version 1 of
                              Inl err \<Rightarrow> (Inl err, s2)
                            | Inr v \<Rightarrow> (Inr 1, HSET s2 key ''version'' (redis_arg v))))))"

definition placeBidAtomic ::
  "store \<Rightarrow> string \<Rightarrow> number \<Rightarrow> string \<Rightarrow> int \<Rightarrow> (lua_error + int) \<times> store" where
  "placeBidAtomic s itemId bidAmount bidderName serverTime =
     placeBid_lua s (AUCTION_KEY_PREFIX @ itemId)
       (js_toString bidAmount) bidderName (js_toString (Fin serverTime))"

section \<open>The auction service (auction.service.ts)\<close>

datatype status = BID_ACCEPTED | BID_TOO_LOW | AUCTION_ENDED

record BidResult =
  success :: bool
  status :: status
  item :: "AuctionItem option"
  previousBidder :: "string option"

text \<open>
  \<open>placeBid\<close> reads the clock once (\<open>serverTime\<close>), reads the item, runs the script and
  reads the item again. An error of the script is the exception that \<open>placeBid\<close> lets
  through to its caller.
\<close>

definition placeBid ::
  "store \<Rightarrow> int \<Rightarrow> string \<Rightarrow> number \<Rightarrow> string \<Rightarrow> (lua_error + BidResult) \<times> store" where
  "placeBid s serverTime itemId amount bidderName =
     (case getItemById s itemId of
        None \<Rightarrow>
          (Inr \<lparr> success = False, status = AUCTION_ENDED, item = None, previousBidder = None \<rparr>, s)
      | Some itemBefore \<Rightarrow>
          (let previousBidder =
                 (if highestBidder itemBefore = [] then None else Some (highestBidder itemBefore))
           in case placeBidAtomic s itemId amount bidderName serverTime of
                (Inl err, s') \<Rightarrow> (Inl err, s')
              | (Inr resultCode, s') \<Rightarrow>
                  (case getItemById s' itemId of
                     None \<Rightarrow>
                       (Inr \<lparr> success = False, status = AUCTION_ENDED, item = None,
                              previousBidder = None \<rparr>, s')
                   | Some itemAfter \<Rightarrow>
                       if resultCode = 1 then
                         (Inr \<lparr> success = True, status = BID_ACCEPTED, item = Some itemAfter,
                                previousBidder = previousBidder \<rparr>, s')
                       else if resultCode = 0 then
                         (Inr \<lparr> success = False, status = BID_TOO_LOW, item = Some itemAfter,
                                previousBidder = None \<rparr>, s')
                       else
                         (Inr \<lparr> success = False, status = AUCTION_ENDED, item = Some itemAfter,
                                previousBidder = None \<rparr>, s'))))"

text \<open>
  \<open>placeBid\<close> waits for Redis three times: for the first read (line 30), for the script
  (line 42) and for the second read (line 50). While it waits, the server handles other
  messages and runs the sweeper. \<open>others1\<close> is what those do to the store between the
  first read and the script, \<open>others2\<close> between the script and the second read; the
  store returned is the one of the second read. \<open>placeBid\<close> above is the call during
  which nothing else touches the store.
\<close>

definition placeBid_interleaved ::
  "(store \<Rightarrow> store) \<Rightarrow> (store \<Rightarrow> store) \<Rightarrow> store \<Rightarrow> int \<Rightarrow> string \<Rightarrow> number \<Rightarrow> string
     \<Rightarrow> (lua_error + BidResult) \<times> store" where
  "placeBid_interleaved others1 others2 s serverTime itemId amount bidderName =
     (case getItemById s itemId of
        None \<Rightarrow>
          (Inr \<lparr> success = False, status = AUCTION_ENDED, item = None, previousBidder = None \<rparr>, s)
      | Some itemBefore \<Rightarrow>
          (let previousBidder =
                 (if highestBidder itemBefore = [] then None else Some (highestBidder itemBefore))
           in case placeBidAtomic (others1 s) itemId amount bidderName serverTime of
                (Inl err, s') \<Rightarrow> (Inl err, s')
              | (Inr resultCode, s') \<Rightarrow>
                  (let s'' = others2 s'
                   in case getItemById s'' itemId of
                        None \<Rightarrow>
                          (Inr \<lparr> success = False, status = AUCTION_ENDED, item = None,
                                 previousBidder = None \<rparr>, s'')
                      | Some itemAfter \<Rightarrow>
                          if resultCode = 1 then
                            (Inr \<lparr> success = True, status = BID_ACCEPTED, item = Some itemAfter,
                                   previousBidder = previousBidder \<rparr>, s'')
                          else if resultCode = 0 then
                            (Inr \<lparr> success = False, status = BID_TOO_LOW, item = Some itemAfter,
                                   previousBidder = None \<rparr>, s'')
                          else
                            (Inr \<lparr> success = False, status = AUCTION_ENDED, item = Some itemAfter,
                                   previousBidder = None \<rparr>, s''))))"

definition isExpired :: "int \<Rightarrow> number \<Rightarrow> bool" where
  "isExpired now timestamp = num_gt (Fin now) timestamp"

text \<open>
  The loop of \<open>checkAndEndExpiredAuctions\<close> over the items read at the start of the pass.
  \<open>isExpired\<close> reads the clock again for every item: \<open>clock n\<close> is the reading at the
  \<open>n\<close>-th item.
\<close>

fun sweepLoop ::
  "(nat \<Rightarrow> int) \<Rightarrow> nat \<Rightarrow> AuctionItem list \<Rightarrow> store \<Rightarrow> AuctionItem list
     \<Rightarrow> AuctionItem list \<times> store" where
  "sweepLoop clock n [] s endedItems = (endedItems, s)"
| "sweepLoop clock n (x # xs) s endedItems =
     (if \<not> ended x \<and> isExpired (clock n) (endsAt x)
      then sweepLoop clock (Suc n) xs (markAuctionEnded s (item_id x))
             (endedItems @ [x\<lparr>ended := True\<rparr>])
      else sweepLoop clock (Suc n) xs s endedItems)"

definition checkAndEndExpiredAuctions :: "store \<Rightarrow> (nat \<Rightarrow> int) \<Rightarrow> AuctionItem list \<times> store" where
  "checkAndEndExpiredAuctions s clock = sweepLoop clock 0 (getAllItems s) s []"

text \<open>
  The pass waits for Redis too: for \<open>getAllItems\<close> (line 91) and for every
  \<open>markAuctionEnded\<close> (line 97). \<open>others\<close> is what bid handlers and other passes do to
  the store after the pass has read the items and before its loop runs: the loop tests
  the flag \<open>ended\<close> of the items as read, not the store. What happens between two marks
  of one loop is not modelled.
\<close>

definition checkAndEndExpiredAuctions_interleaved ::
  "(store \<Rightarrow> store) \<Rightarrow> store \<Rightarrow> (nat \<Rightarrow> int) \<Rightarrow> AuctionItem list \<times> store" where
  "checkAndEndExpiredAuctions_interleaved others s clock =
     sweepLoop clock 0 (getAllItems s) (others s) []"

section \<open>The socket handlers (bidding.socket.ts)\<close>

text \<open>
  \<open>socket.emit\<close> sends to the client that submitted the message, \<open>io.emit\<close> to every
  connected client.
\<close>

datatype recipient = Submitter | AllClients

record OutbidData =
  ob_itemId :: string
  ob_currentBid :: number
  message :: string

datatype server_event =
    E_UPDATE_BID AuctionItem
  | E_BID_ACCEPTED AuctionItem
  | E_OUTBID OutbidData
  | E_AUCTION_ENDED AuctionItem

type_synonym emission = "recipient \<times> server_event"

text \<open>
  The inbound message. The declared type of \<open>itemId\<close> and \<open>bidderName\<close> is string; the
  handler tests them with \<open>!\<close>, which also catches an absent field (\<open>None\<close>). It tests
  \<open>amount\<close> with \<open>typeof\<close>, so \<open>amount\<close> is any JavaScript value.
\<close>

datatype jsvalue =
  JSUndefined | JSNull | JSBoolean bool | JSString string | JSNumber number | JSObject

record BidPlacedData =
  itemId :: "string option"
  amount :: jsvalue
  bidderName :: "string option"

fun js_typeof :: "jsvalue \<Rightarrow> string" where
  "js_typeof JSUndefined = ''undefined''"
| "js_typeof JSNull = ''object''"
| "js_typeof (JSBoolean _) = ''boolean''"
| "js_typeof (JSString _) = ''string''"
| "js_typeof (JSNumber _) = ''number''"
| "js_typeof JSObject = ''object''"

text \<open>\<open>!x\<close> on a text that may be absent: true when absent or empty.\<close>

definition js_not :: "string option \<Rightarrow> bool" where
  "js_not x = (x = None \<or> x = Some [])"

text \<open>\<open>x || d\<close> on texts and on numbers (0 and \<open>NaN\<close> are falsy).\<close>

definition or_text :: "string option \<Rightarrow> string \<Rightarrow> string" where
  "or_text x d = (case x of None \<Rightarrow> d | Some v \<Rightarrow> if v = [] then d else v)"

definition or_number :: "number option \<Rightarrow> number \<Rightarrow> number" where
  "or_number x d = (case x of None \<Rightarrow> d | Some v \<Rightarrow> if v = Fin 0 \<or> v = NaN then d else v)"

text \<open>The fields as used once the first test has passed.\<close>

definition text_of :: "string option \<Rightarrow> string" where
  "text_of x = (case x of None \<Rightarrow> [] | Some v \<Rightarrow> v)"

definition number_of :: "jsvalue \<Rightarrow> number" where
  "number_of x = (case x of JSNumber n \<Rightarrow> n | _ \<Rightarrow> NaN)"

text \<open>
  The handler of \<open>BID_PLACED\<close> from its first test on (line 23), for a payload whose three
  fields have been taken out: what it emits, in order, and the store it leaves. \<open>now\<close> is
  the clock reading of \<open>placeBid\<close>.
\<close>

definition onBidPlaced :: "store \<Rightarrow> int \<Rightarrow> BidPlacedData \<Rightarrow> emission list \<times> store" where
  "onBidPlaced s now data =
     (if js_not (itemId data) \<or> js_typeof (amount data) \<noteq> ''number'' \<or> js_not (bidderName data)
      then ([(Submitter, E_OUTBID \<lparr> ob_itemId = or_text (itemId data) ''unknown'',
                                      ob_currentBid = Fin 0,
                                      message = ''Invalid bid data'' \<rparr>)], s)
      else
        (let itemId' = text_of (itemId data);
             amount' = number_of (amount data);
             bidderName' = text_of (bidderName data)
         in if num_le amount' (Fin 0)
            then ([(Submitter, E_OUTBID \<lparr> ob_itemId = itemId', ob_currentBid = Fin 0,
                                            message = ''Bid amount must be positive'' \<rparr>)], s)
            else
              (case placeBid s now itemId' amount' bidderName' of
                 (Inl err, s') \<Rightarrow>
                   ([(Submitter, E_OUTBID \<lparr> ob_itemId = itemId', ob_currentBid = Fin 0,
                                            message = ''Server error processing bid'' \<rparr>)], s')
               | (Inr result, s') \<Rightarrow>
                   (case (success result, item result) of
                      (True, Some it) \<Rightarrow>
                        ([(Submitter, E_BID_ACCEPTED it), (AllClients, E_UPDATE_BID it)]
                         @ (if previousBidder result \<noteq> None \<and> previousBidder result \<noteq> Some []
                               \<and> previousBidder result \<noteq> Some bidderName'
                            then [(AllClients, E_OUTBID \<lparr> ob_itemId = itemId',
                                     ob_currentBid = currentBid it,
                                     message = ''You have been outbid on '' @ title it \<rparr>)]
                            else []), s')
                    | _ \<Rightarrow>
                        (if status result = AUCTION_ENDED
                         then [(Submitter, E_OUTBID \<lparr> ob_itemId = itemId',
                                  ob_currentBid = or_number (map_option currentBid (item result)) (Fin 0),
                                  message = ''Auction has ended'' \<rparr>)]
                         else (case (status result, item result) of
                                 (BID_TOO_LOW, Some it) \<Rightarrow>
                                   [(Submitter, E_OUTBID \<lparr> ob_itemId = itemId',
                                      ob_currentBid = currentBid it,
                                      message = ''Bid too low. Current bid is $''
                                                  @ js_toString (currentBid it) \<rparr>)]
                               | _ \<Rightarrow> []), s')))))"



text \<open>One run of the interval timer: the sweep and its broadcasts.\<close>

definition sweeperTick :: "store \<Rightarrow> (nat \<Rightarrow> int) \<Rightarrow> emission list \<times> store" where
  "sweeperTick s clock =
     (let (endedAuctions, s') = checkAndEndExpiredAuctions s clock
      in (map (\<lambda>x. (AllClients, E_AUCTION_ENDED x)) endedAuctions, s'))"

text \<open>The same run when other handlers get at the store while the pass waits.\<close>

definition sweeperTick_interleaved ::
  "(store \<Rightarrow> store) \<Rightarrow> store \<Rightarrow> (nat \<Rightarrow> int) \<Rightarrow> emission list \<times> store" where
  "sweeperTick_interleaved others s clock =
     (let (endedAuctions, s') = checkAndEndExpiredAuctions_interleaved others s clock
      in (map (\<lambda>x. (AllClients, E_AUCTION_ENDED x)) endedAuctions, s'))"

section \<open>Auxiliary predicates\<close>

text \<open>A non-empty text of decimal digits.\<close>

definition all_digits :: "string \<Rightarrow> bool" where
  "all_digits ds = (ds \<noteq> [] \<and> (\<forall>c \<in> set ds. is_digit c))"

section \<open>Sequences of operations\<close>

text \<open>
  Arbitration calls on one auction, one after the other: each call is an amount, a bidder
  and the clock reading it carries. The result codes are kept in call order. An error of
  one call does not stop the calls behind it.
\<close>

fun arbitrate_all ::
  "store \<Rightarrow> string \<Rightarrow> (number \<times> string \<times> int) list \<Rightarrow> (lua_error + int) list \<times> store" where
  "arbitrate_all s i [] = ([], s)"
| "arbitrate_all s i ((a, b, now) # calls) =
     (let (r, s') = placeBidAtomic s i a b now;
          (rs, s'') = arbitrate_all s' i calls
      in (r # rs, s''))"

text \<open>
  What the server does when nothing overlaps: it handles a \<open>BID_PLACED\<close> message that
  has a payload, to its end, or the interval timer fires and runs one complete sweep.
  \<open>run\<close> collects everything the server emits.
\<close>

datatype action = Bid int BidPlacedData | Sweep "nat \<Rightarrow> int"

fun step :: "store \<Rightarrow> action \<Rightarrow> emission list \<times> store" where
  "step s (Bid now data) = onBidPlaced s now data"
| "step s (Sweep clock) = sweeperTick s clock"

fun run :: "store \<Rightarrow> action list \<Rightarrow> emission list \<times> store" where
  "run s [] = ([], s)"
| "run s (a # as) =
     (let (es, s') = step s a; (es', s'') = run s' as in (es @ es', s''))"

text \<open>The \<open>AUCTION_ENDED\<close> events for one auction among the emitted events.\<close>

fun reports_end :: "string \<Rightarrow> emission \<Rightarrow> bool" where
  "reports_end i (_, E_AUCTION_ENDED x) = (item_id x = i)"
| "reports_end i _ = False"

definition ended_reports :: "string \<Rightarrow> emission list \<Rightarrow> nat" where
  "ended_reports i es = length (filter (reports_end i) es)"

text \<open>
  A store as \<open>saveItem\<close> builds it: a hash under an auction key that has an \<open>id\<close> field
  is stored under the key of that id.
\<close>

definition keyed_by_id :: "store \<Rightarrow> bool" where
  "keyed_by_id s =
     (\<forall>k \<in> set (KEYS s AUCTION_KEY_PREFIX).
        text_field (hGetAll s k) ''id'' \<noteq> [] \<longrightarrow>
        k = AUCTION_KEY_PREFIX @ text_field (hGetAll s k) ''id'')"

section \<open>Example data\<close>

text \<open>
  The first seeded item of seed.ts, with small clock values: the auction closes at
  60000.
\<close>

definition rolex :: AuctionItem where
  "rolex = \<lparr> item_id = ''1'', title = ''Vintage Rolex Submariner'', startingPrice = Fin 5000,
             currentBid = Fin 5000, highestBidder = [], endsAt = Fin 60000, ended = False,
             version = Fin 0 \<rparr>"

definition seeded :: store where
  "seeded = saveItem [] rolex"

definition bid :: "string \<Rightarrow> int \<Rightarrow> string \<Rightarrow> BidPlacedData" where
  "bid i a b = \<lparr> itemId = Some i, amount = JSNumber (Fin a), bidderName = Some b \<rparr>"

text \<open>Two items that \<open>saveItem\<close> accepts: one without an id, one that closes far ahead.\<close>

definition nameless :: AuctionItem where
  "nameless = \<lparr> item_id = [], title = ''Lamp'', startingPrice = Fin 10, currentBid = Fin 10,
                highestBidder = [], endsAt = Fin 60000, ended = False, version = Fin 0 \<rparr>"

definition far_ahead :: AuctionItem where
  "far_ahead = \<lparr> item_id = ''2'', title = ''Lamp'', startingPrice = Fin 10, currentBid = Fin 10,
                 highestBidder = [], endsAt = Fin (10 ^ 21), ended = False, version = Fin 0 \<rparr>"

text \<open>An item with prices that are not whole: it starts at 19.99 and stands at 5100.5.\<close>

definition teapot :: AuctionItem where
  "teapot = \<lparr> item_id = ''7'', title = ''Teapot'', startingPrice = Frac 199 D9 1,
              currentBid = Frac 5100 D5 0, highestBidder = ''A'', endsAt = Fin 60000,
              ended = True, version = Fin 3 \<rparr>"

text \<open>The seeded auction after bidder A has taken the lead with 5100.\<close>

definition led_by_A :: store where
  "led_by_A = saveItem [] (rolex\<lparr>currentBid := Fin 5100, highestBidder := ''A'', version := Fin 1\<rparr>)"

text \<open>A clock that reads \<open>t\<close> at every item of a sweep.\<close>

definition at_time :: "int \<Rightarrow> nat \<Rightarrow> int" where
  "at_time t n = t"

text \<open>What an operation may do to the store: no \<open>id\<close> field changes and no ended flag is unset.\<close>

definition only_bids_and_end :: "store \<Rightarrow> store \<Rightarrow> bool" where
  "only_bids_and_end s s' =
     (\<forall>k. HGET s' k ''id'' = HGET s k ''id''
          \<and> (HGET s k ''ended'' = Some ''true'' \<longrightarrow> HGET s' k ''ended'' = Some ''true''))"

section \<open>Basic facts about the store and about decimal text\<close>

lemma hGetAll_HSET:
  "hGetAll (HSET s k f v) k' = (if k' = k then AList.update f v (hGetAll s k) else hGetAll s k')"
  by (simp add: hGetAll_def HSET_def AList.update_conv')

lemma HGET_HSET:
  "HGET (HSET s k f v) k' f' = (if k' = k \<and> f' = f then Some v else HGET s k' f')"
  by (simp add: HGET_def hGetAll_HSET AList.update_conv')

lemma EXISTS_HSET: "EXISTS (HSET s k f v) k' = (k' = k \<or> EXISTS s k')"
  by (simp add: EXISTS_def hGetAll_HSET)

lemma HSET_same: "HGET s k f = Some v \<Longrightarrow> HSET s k f v = s"
  by (auto simp: HGET_def HSET_def hGetAll_def AList.update_triv split: option.splits)

lemma HSET_idem: "HSET (HSET s k f v) k f v = HSET s k f v"
  by (simp add: HSET_same HGET_HSET)

lemma digit_val_char: "n < 10 \<Longrightarrow> digit_val (digit_char n) = n"
proof -
  assume "n < 10"
  then have "n \<in> {0, 1, 2, 3, 4, 5, 6, 7, 8, 9}" by auto
  then show ?thesis by (auto simp: digit_val_def digit_char_def)
qed

lemma is_digit_char: "n < 10 \<Longrightarrow> is_digit (digit_char n)"
proof -
  assume "n < 10"
  then have "n \<in> {0, 1, 2, 3, 4, 5, 6, 7, 8, 9}" by auto
  then show ?thesis by (auto simp: is_digit_def digit_char_def)
qed

lemma nat_digits_all: "\<forall>c \<in> set (nat_digits n). is_digit c"
proof (induction n rule: nat_digits.induct)
  case (1 n)
  show ?case
  proof (cases "n < 10")
    case True
    then show ?thesis by (simp add: nat_digits.simps [of n] is_digit_char)
  next
    case False
    with 1 show ?thesis by (simp add: nat_digits.simps [of n] is_digit_char)
  qed
qed

lemma nat_digits_nonempty: "nat_digits n \<noteq> []"
  by (simp add: nat_digits.simps [of n])

lemma digits_val_snoc: "digits_val (ds @ [c]) = 10 * digits_val ds + digit_val c"
  by (simp add: digits_val_def)

lemma digits_val_nat_digits: "digits_val (nat_digits n) = n"
proof (induction n rule: nat_digits.induct)
  case (1 n)
  show ?case
  proof (cases "n < 10")
    case True
    then show ?thesis by (simp add: nat_digits.simps [of n] digits_val_def digit_val_char)
  next
    case False
    with 1 show ?thesis
      by (simp add: nat_digits.simps [of n] digits_val_snoc digit_val_char)
  qed
qed

lemma hd_nat_digits: "\<exists>c cs. nat_digits n = c # cs \<and> is_digit c"
  using nat_digits_all [of n] nat_digits_nonempty [of n] by (cases "nat_digits n") auto


lemma is_digit_cases:
  "is_digit c \<longleftrightarrow> c = CHR ''0'' \<or> c = CHR ''1'' \<or> c = CHR ''2'' \<or> c = CHR ''3'' \<or> c = CHR ''4''
     \<or> c = CHR ''5'' \<or> c = CHR ''6'' \<or> c = CHR ''7'' \<or> c = CHR ''8'' \<or> c = CHR ''9''"
  by (simp add: is_digit_def)

lemma digit_not_space: "is_digit c \<Longrightarrow> \<not> is_space c"
  unfolding is_digit_cases by (elim disjE; simp add: is_space_def)

lemma digit_not_sign: "is_digit c \<Longrightarrow> c \<noteq> CHR ''-'' \<and> c \<noteq> CHR ''+'' \<and> c \<noteq> CHR ''.'' \<and> c \<noteq> CHR ''I''"
  unfolding is_digit_cases by (elim disjE; simp)

lemma digit_lower: "is_digit c \<Longrightarrow> lower c \<noteq> CHR ''i'' \<and> lower c \<noteq> CHR ''n''"
  unfolding is_digit_cases by (elim disjE; simp add: lower_def)

lemma all_digits_nat_digits: "all_digits (nat_digits n)"
  by (simp add: all_digits_def nat_digits_nonempty nat_digits_all)

lemma read_head:
  assumes "is_digit c"
  shows "read_sign (dropWhile is_space (c # r)) = (1, c # r)"
    and "read_sign (dropWhile is_space (CHR ''-'' # c # r)) = (- 1, c # r)"
proof -
  show "read_sign (dropWhile is_space (c # r)) = (1, c # r)"
    using assms by (simp add: digit_not_space digit_not_sign)
  show "read_sign (dropWhile is_space (CHR ''-'' # c # r)) = (- 1, c # r)"
    by (simp add: is_space_def)
qed

text \<open>
  A text that starts with a digit and that \<open>read_decimal\<close> reads to its end is read by
  \<open>parseFloat\<close> and by \<open>tonumber\<close> as that value, with or without a minus sign in front.
\<close>

lemma parse_literal:
  assumes c: "is_digit c" and rd: "\<And>sg. read_decimal sg (c # r) = Some (f sg, [])"
  shows "parseFloat (Some (c # r)) = f 1"
    and "parseFloat (Some (CHR ''-'' # c # r)) = f (- 1)"
    and "lua_tonumber (Some (c # r)) = Some (f 1)"
    and "lua_tonumber (Some (CHR ''-'' # c # r)) = Some (f (- 1))"
proof -
  note rh = read_head [OF c, of r]
  have ns: "CHR ''I'' \<noteq> c" "CHR ''i'' \<noteq> lower c" "CHR ''n'' \<noteq> lower c"
    using digit_not_sign [OF c] digit_lower [OF c] by auto
  show "parseFloat (Some (c # r)) = f 1"
    unfolding parseFloat_def option.case rh by (simp add: ns rd)
  show "parseFloat (Some (CHR ''-'' # c # r)) = f (- 1)"
    unfolding parseFloat_def option.case rh by (simp add: ns rd)
  show "lua_tonumber (Some (c # r)) = Some (f 1)"
    unfolding lua_tonumber_def strtod_def option.case rh by (simp add: ns rd)
  show "lua_tonumber (Some (CHR ''-'' # c # r)) = Some (f (- 1))"
    unfolding lua_tonumber_def strtod_def option.case rh by (simp add: ns rd)
qed

lemma read_decimal_digits:
  assumes "all_digits ds"
  shows "read_decimal sg ds = Some (Fin (sg * int (digits_val ds)), [])"
proof -
  have tw: "takeWhile is_digit ds = ds" "dropWhile is_digit ds = []"
    and ne: "ds \<noteq> []"
    using assms by (simp_all add: all_digits_def)
  show ?thesis
    unfolding read_decimal_def Let_def tw
    by (simp add: read_exponent_def scale10_def ne)
qed

lemma parseInt_digits:
  assumes "all_digits ds"
  shows "parseInt (Some ds) = Fin (int (digits_val ds))"
    and "parseInt (Some (CHR ''-'' # ds)) = Fin (- int (digits_val ds))"
proof -
  obtain c cs where ds: "ds = c # cs" and c: "is_digit c"
    using assms by (cases ds) (auto simp: all_digits_def)
  have tw: "takeWhile is_digit (c # cs) = c # cs"
    using assms by (simp add: all_digits_def ds)
  note rh = read_head [OF c, of cs]
  show "parseInt (Some ds) = Fin (int (digits_val ds))"
    unfolding ds parseInt_def option.case rh prod.case Let_def tw by simp
  show "parseInt (Some (CHR ''-'' # ds)) = Fin (- int (digits_val ds))"
    unfolding ds parseInt_def option.case rh prod.case Let_def tw by simp
qed

lemma int_digits_cases:
  "n < 0 \<Longrightarrow> int_digits n = CHR ''-'' # nat_digits (nat (- n))"
  "\<not> n < 0 \<Longrightarrow> int_digits n = nat_digits (nat n)"
  by (simp_all add: int_digits_def)

lemma parse_int_digits:
  "parseInt (Some (int_digits n)) = Fin n"
  "parseFloat (Some (int_digits n)) = Fin n"
  "lua_tonumber (Some (int_digits n)) = Some (Fin n)"
proof -
  note pd = parseInt_digits [OF all_digits_nat_digits]
  show "parseInt (Some (int_digits n)) = Fin n"
    by (cases "n < 0") (simp_all add: int_digits_cases pd digits_val_nat_digits)
  have lit: "parseFloat (Some (nat_digits m)) = Fin (int m)
      \<and> parseFloat (Some (CHR ''-'' # nat_digits m)) = Fin (- int m)
      \<and> lua_tonumber (Some (nat_digits m)) = Some (Fin (int m))
      \<and> lua_tonumber (Some (CHR ''-'' # nat_digits m)) = Some (Fin (- int m))" for m
  proof -
    obtain c cs where m: "nat_digits m = c # cs" and c: "is_digit c"
      using hd_nat_digits by blast
    have "read_decimal sg (c # cs) = Some (Fin (sg * int m), [])" for sg
      using read_decimal_digits [OF all_digits_nat_digits, of sg m]
      by (simp add: m [symmetric] digits_val_nat_digits)
    from parse_literal [OF c, of cs "\<lambda>sg. Fin (sg * int m)", OF this]
    show ?thesis by (simp add: m)
  qed
  show "parseFloat (Some (int_digits n)) = Fin n"
    by (cases "n < 0") (simp_all add: int_digits_cases lit)
  show "lua_tonumber (Some (int_digits n)) = Some (Fin n)"
    by (cases "n < 0") (simp_all add: int_digits_cases lit)
qed

lemma digits_val_append_zeros:
  "digits_val (ds @ replicate z (CHR ''0'')) = digits_val ds * 10 ^ z"
proof (induction z)
  case 0
  then show ?case by simp
next
  case (Suc z)
  have "ds @ replicate (Suc z) (CHR ''0'') = (ds @ replicate z (CHR ''0'')) @ [CHR ''0'']"
    by (simp add: replicate_append_same)
  then have "digits_val (ds @ replicate (Suc z) (CHR ''0''))
      = 10 * digits_val (ds @ replicate z (CHR ''0'')) + digit_val (CHR ''0'')"
    by (simp only: digits_val_snoc)
  then show ?case using Suc by (simp add: digit_val_def)
qed

lemma strip_zeros:
  fixes ds :: string
  defines "z \<equiv> length (takeWhile (\<lambda>c. c = CHR ''0'') (rev ds))"
  defines "sig \<equiv> rev (dropWhile (\<lambda>c. c = CHR ''0'') (rev ds))"
  shows "ds = sig @ replicate z (CHR ''0'')"
proof -
  have "takeWhile (\<lambda>c. c = CHR ''0'') (rev ds) = replicate z (CHR ''0'')"
    unfolding z_def by (rule replicate_length_same [symmetric]) (auto dest: set_takeWhileD)
  then have "rev ds = replicate z (CHR ''0'') @ rev sig"
    using takeWhile_dropWhile_id [of "\<lambda>c. c = CHR ''0''" "rev ds"] by (simp add: sig_def)
  then have "rev (rev ds) = rev (replicate z (CHR ''0'') @ rev sig)" by simp
  then show ?thesis by simp
qed

text \<open>Exponent notation: a digit, the other digits behind a point, a signed exponent.\<close>

lemma read_decimal_exp:
  assumes c: "is_digit c" and cs: "\<forall>x \<in> set cs. is_digit x" and E: "all_digits E"
  shows "read_decimal sg (c # (if cs \<noteq> [] then CHR ''.'' # cs else []) @ ''e+'' @ E)
         = Some (scale10 (sg * int (digits_val (c # cs)))
                   (int (digits_val E) - int (length cs)), [])"
    and "read_decimal sg (c # (if cs \<noteq> [] then CHR ''.'' # cs else []) @ ''e-'' @ E)
         = Some (scale10 (sg * int (digits_val (c # cs)))
                   (- int (digits_val E) - int (length cs)), [])"
proof -
  have nd: "\<not> is_digit (CHR ''e'')" "\<not> is_digit (CHR ''.'')"
    by (simp_all add: is_digit_def)
  have twE: "takeWhile is_digit E = E" "dropWhile is_digit E = []" "E \<noteq> []"
    using E by (simp_all add: all_digits_def)
  have rx: "read_exponent (''e+'' @ E) = (int (digits_val E), [])"
    "read_exponent (''e-'' @ E) = (- int (digits_val E), [])"
    by (simp_all add: read_exponent_def twE)
  have tw: "takeWhile is_digit (cs @ CHR ''e'' # r) = cs"
    "dropWhile is_digit (cs @ CHR ''e'' # r) = CHR ''e'' # r" for r
    using cs nd by (simp_all add: takeWhile_tail)
  show "read_decimal sg (c # (if cs \<noteq> [] then CHR ''.'' # cs else []) @ ''e+'' @ E)
         = Some (scale10 (sg * int (digits_val (c # cs)))
                   (int (digits_val E) - int (length cs)), [])"
    using c nd rx(1) tw [of "CHR ''+'' # E"] by (cases "cs = []") (simp_all add: read_decimal_def)
  show "read_decimal sg (c # (if cs \<noteq> [] then CHR ''.'' # cs else []) @ ''e-'' @ E)
         = Some (scale10 (sg * int (digits_val (c # cs)))
                   (- int (digits_val E) - int (length cs)), [])"
    using c nd rx(2) tw [of "CHR ''-'' # E"] by (cases "cs = []") (simp_all add: read_decimal_def)
qed

lemma read_decimal_exp_notation:
  assumes "m \<noteq> 0"
  shows "\<exists>c r. is_digit c \<and> exp_notation (int m) = c # r
           \<and> exp_notation (- int m) = CHR ''-'' # c # r
           \<and> read_decimal sg (c # r) = Some (Fin (sg * int m), [])"
proof -
  define ds where "ds = nat_digits m"
  define z where "z = length (takeWhile (\<lambda>c. c = CHR ''0'') (rev ds))"
  define sig where "sig = rev (dropWhile (\<lambda>c. c = CHR ''0'') (rev ds))"
  have ds: "ds = sig @ replicate z (CHR ''0'')"
    unfolding z_def sig_def by (rule strip_zeros)
  have val: "digits_val ds = m" by (simp add: ds_def digits_val_nat_digits)
  have all: "\<forall>x \<in> set ds. is_digit x" by (simp add: ds_def nat_digits_all)
  have "digits_val sig * 10 ^ z = m"
    using val digits_val_append_zeros [of sig z] by (simp add: ds [symmetric])
  with assms have "digits_val sig \<noteq> 0" by auto
  then obtain c cs where sig: "sig = c # cs"
    by (cases sig) (auto simp: digits_val_def)
  have c: "is_digit c" and cs: "\<forall>x \<in> set cs. is_digit x"
    using all ds sig by auto
  have "length ds = Suc (length cs) + z" by (subst ds) (simp add: sig)
  then have len: "length ds - Suc 0 = length cs + z" by simp
  define E where "E = nat_digits (length ds - 1)"
  have E: "all_digits E" "digits_val E = length cs + z"
    by (simp_all add: E_def all_digits_nat_digits digits_val_nat_digits len)
  define r where "r = (if cs \<noteq> [] then CHR ''.'' # cs else []) @ ''e+'' @ E"
  have abs: "nat \<bar>int m\<bar> = m" "nat \<bar>- int m\<bar> = m" by simp_all
  have pos: "exp_notation (int m) = c # r"
    unfolding exp_notation_def Let_def abs ds_def [symmetric] sig_def [symmetric] sig
    by (simp add: r_def E_def)
  have neg: "exp_notation (- int m) = CHR ''-'' # c # r"
    unfolding exp_notation_def Let_def abs ds_def [symmetric] sig_def [symmetric] sig
    using assms by (simp add: r_def E_def)
  have "read_decimal sg (c # r) = Some (Fin (sg * int (digits_val (c # cs)) * 10 ^ z), [])"
    unfolding r_def using read_decimal_exp(1) [OF c cs E(1), of sg] E(2)
    by (simp add: scale10_def)
  moreover have "int (digits_val (c # cs)) * 10 ^ z = int m"
    using \<open>digits_val sig * 10 ^ z = m\<close> sig by (metis of_nat_mult of_nat_numeral of_nat_power)
  ultimately have "read_decimal sg (c # r) = Some (Fin (sg * int m), [])"
    by (simp add: mult.assoc)
  with c pos neg show ?thesis by blast
qed

lemma parse_exp_notation:
  assumes "n \<noteq> 0"
  shows "parseFloat (Some (exp_notation n)) = Fin n"
    and "lua_tonumber (Some (exp_notation n)) = Some (Fin n)"
proof -
  define m where "m = nat \<bar>n\<bar>"
  have m: "m \<noteq> 0" and n: "n = int m \<or> n = - int m"
    using assms by (auto simp: m_def)
  have ex: "\<exists>c r. is_digit c \<and> exp_notation (int m) = c # r
      \<and> exp_notation (- int m) = CHR ''-'' # c # r
      \<and> (\<forall>sg. read_decimal sg (c # r) = Some (Fin (sg * int m), []))"
  proof -
    obtain c r where 1: "is_digit c" "exp_notation (int m) = c # r"
      "exp_notation (- int m) = CHR ''-'' # c # r"
      using read_decimal_exp_notation [OF m, of 1] by blast
    have "read_decimal sg (c # r) = Some (Fin (sg * int m), [])" for sg
      using read_decimal_exp_notation [OF m, of sg] 1(2) by auto
    with 1 show ?thesis by blast
  qed
  then obtain c r where c: "is_digit c" and p: "exp_notation (int m) = c # r"
    and q: "exp_notation (- int m) = CHR ''-'' # c # r"
    and rd: "\<And>sg. read_decimal sg (c # r) = Some (Fin (sg * int m), [])"
    by blast
  note pl = parse_literal [OF c, of r "\<lambda>sg. Fin (sg * int m)", OF rd]
  show "parseFloat (Some (exp_notation n)) = Fin n"
    using n pl by (auto simp: p q)
  show "lua_tonumber (Some (exp_notation n)) = Some (Fin n)"
    using n pl by (auto simp: p q)
qed

text \<open>The notation of a number with a fraction, read back.\<close>

lemma nz_val_range: "1 \<le> nz_val d \<and> nz_val d \<le> 9"
  by (cases d) simp_all

lemma nz_of_val: "nz_of (nz_val d) = d"
  by (cases d) (simp_all add: nz_of_def)

lemma decimal_Frac: "decimal (10 * q + nz_val d) (Suc k) = Frac q d k"
proof -
  have "(10 * q + nz_val d) mod 10 = nz_val d" "(10 * q + nz_val d) div 10 = q"
    using nz_val_range [of d] by simp_all
  then show ?thesis using nz_val_range [of d] by (simp add: nz_of_val)
qed

lemma digits_val_leading_zeros:
  "digits_val (replicate z (CHR ''0'') @ ds) = digits_val ds"
proof -
  have "foldl (\<lambda>a c. 10 * a + digit_val c) 0 (replicate z (CHR ''0'')) = 0"
    by (induction z) (simp_all add: digit_val_def replicate_append_same [symmetric])
  then show ?thesis by (simp add: digits_val_def)
qed

lemma read_decimal_point:
  assumes ip: "all_digits ip" and fp: "all_digits fp"
  shows "read_decimal sg (ip @ ''.'' @ fp)
         = Some (scale10 (sg * int (digits_val (ip @ fp))) (- int (length fp)), [])"
proof -
  have nd: "\<not> is_digit (CHR ''.'')" by (simp add: is_digit_def)
  have tw: "takeWhile is_digit (ip @ CHR ''.'' # fp) = ip"
    "dropWhile is_digit (ip @ CHR ''.'' # fp) = CHR ''.'' # fp"
    using ip nd by (simp_all add: all_digits_def takeWhile_tail)
  have twf: "takeWhile is_digit fp = fp" "dropWhile is_digit fp = []" "fp \<noteq> []"
    using fp by (simp_all add: all_digits_def)
  show ?thesis
    by (simp add: read_decimal_def tw twf read_exponent_def)
qed

lemma read_body:
  assumes "body = c # r" and "is_digit c" and "d = c"
    and "\<forall>sg. read_decimal sg body = Some (v sg, [])"
  shows "\<exists>r. body = d # r \<and> is_digit d \<and> (\<forall>sg. read_decimal sg (d # r) = Some (v sg, []))"
  using assms by blast

lemma read_decimal_frac_notation:
  assumes "0 < m" and p: "0 < p"
  shows "\<exists>c r. is_digit c \<and> frac_notation (int m) p = c # r
           \<and> frac_notation (- int m) p = CHR ''-'' # c # r
           \<and> (\<forall>sg. read_decimal sg (c # r) = Some (scale10 (sg * int m) (- int p), []))"
proof -
  define ds where "ds = nat_digits m"
  define n where "n = int (length ds) - int p"
  obtain c cs where ds: "ds = c # cs" and c: "is_digit c"
    using hd_nat_digits [of m] by (auto simp: ds_def)
  have all: "\<forall>x \<in> set ds. is_digit x" by (simp add: ds_def nat_digits_all)
  then have cs: "\<forall>x \<in> set cs. is_digit x" by (simp add: ds)
  have val: "digits_val ds = m" by (simp add: ds_def digits_val_nat_digits)
  have abs: "nat \<bar>int m\<bar> = m" "nat \<bar>- int m\<bar> = m" by simp_all
  define body where "body =
     (if 0 < n \<and> n \<le> 21 then take (nat n) ds @ ''.'' @ drop (nat n) ds
      else if - 6 < n \<and> n \<le> 0 then ''0.'' @ replicate (nat (- n)) (CHR ''0'') @ ds
      else take 1 ds @ (if 1 < length ds then ''.'' @ drop 1 ds else [])
             @ (if 0 < n then ''e+'' else ''e-'') @ nat_digits (nat \<bar>n - 1\<bar>))"
  have pos: "frac_notation (int m) p = body"
    unfolding frac_notation_def Let_def abs ds_def [symmetric] n_def [symmetric] body_def
    by simp
  have neg: "frac_notation (- int m) p = CHR ''-'' # body"
    unfolding frac_notation_def Let_def abs ds_def [symmetric] n_def [symmetric] body_def
    using assms by simp
  have rd: "\<exists>r. body = d # r \<and> is_digit d
      \<and> (\<forall>sg. read_decimal sg (d # r) = Some (scale10 (sg * int m) (- int p), []))"
    if d: "d = (if 0 < n then c else if - 6 < n then CHR ''0'' else c)" for d
  proof -
    have "n < int (length ds)" using p by (simp add: n_def)
    then consider (point) "0 < n" "n \<le> 21" "n < int (length ds)"
      | (zeros) "- 6 < n" "n \<le> 0"
      | (exp) "21 < n \<or> n \<le> - 6"
      by linarith
    then show ?thesis
    proof cases
      case point
      define ip where "ip = take (nat n) ds"
      define fp where "fp = drop (nat n) ds"
      have ipfp: "ip @ fp = ds" by (simp add: ip_def fp_def)
      have ne: "ip \<noteq> []" "fp \<noteq> []" using point by (auto simp: ip_def fp_def ds)
      have a: "all_digits ip" "all_digits fp"
        using all ne by (auto simp: all_digits_def ip_def fp_def dest: in_set_takeD in_set_dropD)
      have len: "int (length fp) = int p"
        using point by (simp add: fp_def n_def)
      have "hd ip = c" using point by (simp add: ip_def ds)
      with ne have hd: "ip = c # tl ip" by (cases ip) auto
      have b: "body = ip @ ''.'' @ fp"
        using point by (simp add: body_def ip_def fp_def)
      from read_decimal_point [OF a] have
        rdb: "\<forall>sg. read_decimal sg body = Some (scale10 (sg * int m) (- int p), [])"
        by (simp add: b ipfp val len)
      have bc: "body = c # (tl ip @ ''.'' @ fp)" by (subst b, subst hd) simp
      have dc: "d = c" using d point by simp
      show ?thesis by (rule read_body [OF bc c dc rdb])
    next
      case zeros
      define fp where "fp = replicate (nat (- n)) (CHR ''0'') @ ds"
      have z: "is_digit (CHR ''0'')" by (simp add: is_digit_def)
      have "ds \<noteq> []" by (simp add: ds)
      then have a: "all_digits ''0''" "all_digits fp"
        using all z by (auto simp: all_digits_def fp_def)
      have len: "int (length fp) = int p"
        using zeros by (simp add: fp_def n_def)
      have v: "digits_val (''0'' @ fp) = m"
        using digits_val_leading_zeros [of "Suc (nat (- n))" ds]
        by (simp add: fp_def val)
      have b: "body = ''0'' @ ''.'' @ fp"
        using zeros by (simp add: body_def fp_def)
      from read_decimal_point [OF a] have
        rdb: "\<forall>sg. read_decimal sg body = Some (scale10 (sg * int m) (- int p), [])"
        by (simp only: b v len, simp)
      have bc: "body = CHR ''0'' # (''.'' @ fp)" by (simp add: b)
      have dc: "d = CHR ''0''" using d zeros by simp
      show ?thesis by (rule read_body [OF bc z dc rdb])
    next
      case exp
      define E where "E = nat_digits (nat \<bar>n - 1\<bar>)"
      have E: "all_digits E" "int (digits_val E) = \<bar>n - 1\<bar>"
        by (simp_all add: E_def all_digits_nat_digits digits_val_nat_digits)
      have lencs: "int (length cs) = int (length ds) - 1" by (simp add: ds)
      have b: "body = c # (if cs \<noteq> [] then CHR ''.'' # cs else [])
          @ (if 0 < n then ''e+'' else ''e-'') @ E"
        using exp by (auto simp: body_def E_def ds)
      have rdb: "read_decimal sg body = Some (scale10 (sg * int m) (- int p), [])" for sg
      proof (cases "0 < n")
        case True
        then have "int (digits_val E) - int (length cs) = - int p"
          using exp E(2) lencs by (simp add: n_def)
        with read_decimal_exp(1) [OF c cs E(1), of sg] True show ?thesis
          by (simp add: b val [unfolded ds])
      next
        case False
        then have "- int (digits_val E) - int (length cs) = - int p"
          using exp E(2) lencs by (simp add: n_def)
        with read_decimal_exp(2) [OF c cs E(1), of sg] False show ?thesis
          by (simp add: b val [unfolded ds])
      qed
      have dc: "d = c" using d exp by auto
      show ?thesis by (rule read_body [OF b c dc]) (simp add: rdb)
    qed
  qed
  from rd [OF refl] pos neg show ?thesis by blast
qed


lemma parse_frac:
  "parseFloat (Some (frac_notation (10 * q + nz_val d) (Suc k))) = Frac q d k"
  "lua_tonumber (Some (frac_notation (10 * q + nz_val d) (Suc k))) = Some (Frac q d k)"
proof -
  define n where "n = 10 * q + nz_val d"
  define m where "m = nat \<bar>n\<bar>"
  have "n mod 10 = nz_val d" using nz_val_range [of d] by (simp add: n_def)
  then have "n \<noteq> 0" using nz_val_range [of d] by auto
  then have m: "0 < m" and n: "n = int m \<or> n = - int m"
    by (auto simp: m_def)
  obtain c r where c: "is_digit c" and p: "frac_notation (int m) (Suc k) = c # r"
    and q: "frac_notation (- int m) (Suc k) = CHR ''-'' # c # r"
    and rd: "\<And>sg. read_decimal sg (c # r) = Some (scale10 (sg * int m) (- int (Suc k)), [])"
    using read_decimal_frac_notation [OF m, of "Suc k"] by auto
  note pl = parse_literal [OF c, of r "\<lambda>sg. scale10 (sg * int m) (- int (Suc k))", OF rd]
  have "scale10 n (- int (Suc k)) = decimal n (Suc k)"
    by (simp add: scale10_def del: decimal.simps of_nat_Suc)
  then have v: "scale10 n (- int (Suc k)) = Frac q d k"
    by (simp only: n_def decimal_Frac)
  show "parseFloat (Some (frac_notation (10 * q + nz_val d) (Suc k))) = Frac q d k"
    unfolding n_def [symmetric] using n pl v by (auto simp: p q)
  show "lua_tonumber (Some (frac_notation (10 * q + nz_val d) (Suc k))) = Some (Frac q d k)"
    unfolding n_def [symmetric] using n pl v by (auto simp: p q)
qed

text \<open>Every number that JavaScript writes is read back by Lua and by \<open>parseFloat\<close>.\<close>

lemma tonumber_js_toString: "lua_tonumber (Some (js_toString x)) = Some x"
proof (cases x)
  case (Fin n)
  then show ?thesis
    by (cases "n = 0") (auto simp: parse_int_digits parse_exp_notation)
next
  case (Frac q d k)
  then show ?thesis by (simp add: parse_frac)
qed (simp_all add: lua_tonumber_def strtod_def is_space_def lower_def)

lemma parseFloat_js_toString: "parseFloat (Some (js_toString x)) = x"
proof (cases x)
  case (Fin n)
  then show ?thesis
    by (cases "n = 0") (auto simp: parse_int_digits parse_exp_notation)
next
  case (Frac q d k)
  then show ?thesis by (simp add: parse_frac)
qed (simp_all add: parseFloat_def is_space_def read_decimal_def is_digit_def)

lemma parseInt_js_toString: "\<bar>n\<bar> < 10 ^ 21 \<Longrightarrow> parseInt (Some (js_toString (Fin n))) = Fin n"
  by (simp add: parse_int_digits)

text \<open>
  Every number that the script stores is read back by Lua. \<open>parseFloat\<close> reads back the
  finite ones; it knows \<open>Infinity\<close> but not \<open>inf\<close>.
\<close>

lemma tonumber_redis_arg: "lua_tonumber (Some (redis_arg x)) = Some x"
  by (cases x)
    (simp_all add: parse_int_digits parse_frac,
     simp_all add: lua_tonumber_def strtod_def is_space_def lower_def)

lemma parseFloat_redis_arg:
  "parseFloat (Some (redis_arg x)) = (if x = Infinity \<or> x = NegInfinity then NaN else x)"
  by (cases x)
    (simp_all add: parse_int_digits parse_frac,
     simp_all add: parseFloat_def is_space_def read_decimal_def is_digit_def)

lemma parseInt_redis_arg: "parseInt (Some (redis_arg (Fin n))) = Fin n"
  by (simp add: parse_int_digits)

text \<open>Some numbers with a fraction, written and read.\<close>

lemma frac_examples:
  "js_toString (Frac 5100 D5 0) = ''5100.5''"
  "js_toString (Frac 0 D1 6) = ''1e-7''"
  "js_toString (Frac (- 1) D5 1) = ''-0.05''"
  "parseFloat (Some ''5100.5'') = Frac 5100 D5 0"
  "lua_tonumber (Some ''5100.5'') = Some (Frac 5100 D5 0)"
  "parseInt (Some ''5100.5'') = Fin 5100"
proof -
  show t: "js_toString (Frac 5100 D5 0) = ''5100.5''"
    by (simp add: frac_notation_def nat_digits.simps digit_char_def)
  show "js_toString (Frac 0 D1 6) = ''1e-7''"
    by (simp add: frac_notation_def nat_digits.simps digit_char_def)
  show "js_toString (Frac (- 1) D5 1) = ''-0.05''"
    by (simp add: frac_notation_def nat_digits.simps digit_char_def)
  show "parseFloat (Some ''5100.5'') = Frac 5100 D5 0"
    using parseFloat_js_toString [of "Frac 5100 D5 0"] by (simp only: t)
  show "lua_tonumber (Some ''5100.5'') = Some (Frac 5100 D5 0)"
    using tonumber_js_toString [of "Frac 5100 D5 0"] by (simp only: t)
  show "parseInt (Some ''5100.5'') = Fin 5100"
    by (simp add: parseInt_def is_space_def is_digit_def digits_val_def digit_val_def)
qed

section \<open>The script, case by case\<close>

text \<open>
  The arguments of the script are numbers written by JavaScript, which Lua reads back;
  with that, the script is a chain of tests on the fields of the hash.
\<close>

lemma placeBidAtomic_eq:
  "placeBidAtomic s i a b now =
   (let key = AUCTION_KEY_PREFIX @ i in
    if \<not> EXISTS s key then (Inr (- 1), s)
    else if HGET s key ''ended'' = Some ''true'' then (Inr (- 1), s)
    else
      (case lua_tonumber (HGET s key ''endsAt'') of
         None \<Rightarrow> (Inl CompareWithNil, s)
       | Some e \<Rightarrow>
           if num_gt (Fin now) e then (Inr (- 1), HSET s key ''ended'' ''true'')
           else
             (case lua_tonumber (HGET s key ''currentBid'') of
                None \<Rightarrow> (Inl CompareWithNil, s)
              | Some c \<Rightarrow>
                  if num_le a c then (Inr 0, s)
                  else
                    (case lua_tonumber (HGET s key ''version'') of
                       None \<Rightarrow>
                         (Inl ArithmeticOnNil,
                          HSET (HSET s key ''currentBid'' (redis_arg a)) key ''highestBidder'' b)
                     | Some v \<Rightarrow>
                         (Inr 1,
                          HSET (HSET (HSET s key ''currentBid'' (redis_arg a)) key
                            ''highestBidder'' b) key ''version'' (redis_arg (num_add v 1)))))))"
  unfolding placeBidAtomic_def placeBid_lua_def tonumber_js_toString
  by (simp add: Let_def lua_gt_def lua_le_def lua_add_def split: option.splits)

lemma HGET_Some_EXISTS: "HGET s k f = Some v \<Longrightarrow> EXISTS s k"
  by (auto simp: HGET_def EXISTS_def)

text \<open>What \<open>saveItem\<close> leaves in the store, field by field.\<close>

lemma saveItem_HGET:
  "HGET (saveItem s x) k f =
     (if k = AUCTION_KEY_PREFIX @ item_id x then
        (if f = ''id'' then Some (item_id x)
         else if f = ''title'' then Some (title x)
         else if f = ''startingPrice'' then Some (js_toString (startingPrice x))
         else if f = ''currentBid'' then Some (js_toString (currentBid x))
         else if f = ''highestBidder'' then Some (highestBidder x)
         else if f = ''endsAt'' then Some (js_toString (endsAt x))
         else if f = ''ended'' then Some (bool_toString (ended x))
         else if f = ''version'' then Some (js_toString (version x))
         else HGET s k f)
      else HGET s k f)"
  by (simp add: saveItem_def Let_def HGET_HSET)

text \<open>\<open>getItemById\<close> in terms of the fields of the hash.\<close>

lemma getItemById_HGET:
  "getItemById s i =
     (let k = AUCTION_KEY_PREFIX @ i in
      if HGET s k ''id'' = None \<or> HGET s k ''id'' = Some [] then None
      else Some \<lparr> item_id = (case HGET s k ''id'' of None \<Rightarrow> [] | Some v \<Rightarrow> v),
                  title = (case HGET s k ''title'' of None \<Rightarrow> [] | Some v \<Rightarrow> v),
                  startingPrice = parseFloat (HGET s k ''startingPrice''),
                  currentBid = parseFloat (HGET s k ''currentBid''),
                  highestBidder = (case HGET s k ''highestBidder'' of None \<Rightarrow> [] | Some v \<Rightarrow> v),
                  endsAt = parseInt (HGET s k ''endsAt''),
                  ended = (HGET s k ''ended'' = Some ''true''),
                  version = parseInt (HGET s k ''version'') \<rparr>)"
  by (auto simp: getItemById_def parseAuctionItem_def text_field_def HGET_def Let_def
      split: option.splits)

text \<open>An item with an id and with deadline and version in plain notation is read back.\<close>

lemma saveItem_getItemById:
  assumes "item_id x \<noteq> []"
    and "endsAt x = Fin e" and "\<bar>e\<bar> < 10 ^ 21"
    and "version x = Fin v" and "\<bar>v\<bar> < 10 ^ 21"
  shows "getItemById (saveItem s x) (item_id x) = Some x"
  using assms
  by (simp add: getItemById_HGET saveItem_HGET parseFloat_js_toString parseInt_js_toString
      bool_toString_def del: js_toString.simps)

section \<open>The service and the handler, case by case\<close>

text \<open>\<open>placeBid\<close> on a record that can be read: the accepted bid and the bid too low.\<close>

lemma placeBid_item:
  assumes "placeBid s now i a b = (Inr res, s')"
  shows "item res = getItemById s' i"
    and "getItemById s i = None \<Longrightarrow> s' = s"
    and "getItemById s i \<noteq> None \<Longrightarrow> s' = snd (placeBidAtomic s i a b now)"
  using assms
  by (auto simp: placeBid_def Let_def split: option.splits prod.splits sum.splits if_splits)

lemma placeBid_accept:
  assumes k: "k = AUCTION_KEY_PREFIX @ i"
    and id: "HGET s k ''id'' = Some j" "j \<noteq> []"
    and op: "HGET s k ''ended'' \<noteq> Some ''true''"
    and e: "lua_tonumber (HGET s k ''endsAt'') = Some e" "\<not> num_gt (Fin now) e"
    and c: "lua_tonumber (HGET s k ''currentBid'') = Some c" "\<not> num_le a c"
    and v: "lua_tonumber (HGET s k ''version'') = Some v"
    and s1: "s1 = HSET (HSET (HSET s k ''currentBid'' (redis_arg a)) k ''highestBidder'' b) k
               ''version'' (redis_arg (num_add v 1))"
  shows "placeBid s now i a b =
     (Inr \<lparr> success = True, status = BID_ACCEPTED,
            item = getItemById s1 i,
            previousBidder = (case HGET s k ''highestBidder'' of
                                None \<Rightarrow> None | Some p \<Rightarrow> if p = [] then None else Some p) \<rparr>, s1)"
proof -
  have ex: "EXISTS s k" using id by (auto dest: HGET_Some_EXISTS)
  have atom: "placeBidAtomic s i a b now = (Inr 1, s1)"
    using ex op e c v by (simp add: placeBidAtomic_eq k [symmetric] s1)
  have g: "getItemById s i \<noteq> None" "getItemById s1 i \<noteq> None"
    using id by (simp_all add: getItemById_HGET k [symmetric] s1 HGET_HSET)
  then obtain x y where x: "getItemById s i = Some x" and y: "getItemById s1 i = Some y"
    by auto
  have hb: "highestBidder x = (case HGET s k ''highestBidder'' of None \<Rightarrow> [] | Some p \<Rightarrow> p)"
    using x id by (auto simp: getItemById_HGET k [symmetric] split: if_splits)
  show ?thesis
    by (simp add: placeBid_def x y atom hb split: option.splits)
qed

lemma placeBid_too_low:
  assumes k: "k = AUCTION_KEY_PREFIX @ i"
    and id: "HGET s k ''id'' = Some j" "j \<noteq> []"
    and op: "HGET s k ''ended'' \<noteq> Some ''true''"
    and e: "lua_tonumber (HGET s k ''endsAt'') = Some e" "\<not> num_gt (Fin now) e"
    and c: "lua_tonumber (HGET s k ''currentBid'') = Some c" "num_le a c"
  shows "placeBid s now i a b =
     (Inr \<lparr> success = False, status = BID_TOO_LOW, item = getItemById s i,
            previousBidder = None \<rparr>, s)"
proof -
  have ex: "EXISTS s k" using id by (auto dest: HGET_Some_EXISTS)
  have atom: "placeBidAtomic s i a b now = (Inr 0, s)"
    using ex op e c by (simp add: placeBidAtomic_eq k [symmetric])
  have "getItemById s i \<noteq> None"
    using id by (simp add: getItemById_HGET k [symmetric])
  then obtain x where x: "getItemById s i = Some x" by auto
  show ?thesis by (simp add: placeBid_def x atom)
qed

text \<open>The handler on a message that fails one of its two tests, and on one that passes.\<close>

lemma onBidPlaced_invalid:
  assumes "js_not (itemId d) \<or> js_typeof (amount d) \<noteq> ''number'' \<or> js_not (bidderName d)"
  shows "onBidPlaced s now d =
     ([(Submitter, E_OUTBID \<lparr> ob_itemId = or_text (itemId d) ''unknown'', ob_currentBid = Fin 0,
                                 message = ''Invalid bid data'' \<rparr>)], s)"
  using assms by (auto simp: onBidPlaced_def)

lemma onBidPlaced_not_positive:
  assumes "itemId d = Some i" "i \<noteq> []" "amount d = JSNumber a" "bidderName d = Some b" "b \<noteq> []"
    and "num_le a (Fin 0)"
  shows "onBidPlaced s now d =
     ([(Submitter, E_OUTBID \<lparr> ob_itemId = i, ob_currentBid = Fin 0,
                                 message = ''Bid amount must be positive'' \<rparr>)], s)"
  using assms by (simp add: onBidPlaced_def js_not_def text_of_def number_of_def)

lemma onBidPlaced_store:
  assumes "itemId d = Some i" "i \<noteq> []" "amount d = JSNumber a" "bidderName d = Some b" "b \<noteq> []"
    and "\<not> num_le a (Fin 0)"
  shows "snd (onBidPlaced s now d) = snd (placeBid s now i a b)"
  using assms
  by (simp add: onBidPlaced_def js_not_def text_of_def number_of_def Let_def
      split: prod.splits sum.splits option.splits bool.splits)

lemma typeof_number: "js_typeof x = ''number'' \<longleftrightarrow> (\<exists>a. x = JSNumber a)"
  by (cases x) simp_all

lemma onBidPlaced_accepted:
  assumes "itemId d = Some i" "i \<noteq> []" "amount d = JSNumber a" "bidderName d = Some b" "b \<noteq> []"
    and "\<not> num_le a (Fin 0)"
    and "placeBid s now i a b
           = (Inr \<lparr> success = True, status = st, item = Some x, previousBidder = pb \<rparr>, s')"
  shows "onBidPlaced s now d =
     ([(Submitter, E_BID_ACCEPTED x), (AllClients, E_UPDATE_BID x)]
      @ (if pb \<noteq> None \<and> pb \<noteq> Some [] \<and> pb \<noteq> Some b
         then [(AllClients, E_OUTBID \<lparr> ob_itemId = i, ob_currentBid = currentBid x,
                                        message = ''You have been outbid on '' @ title x \<rparr>)]
         else []), s')"
  using assms by (simp add: onBidPlaced_def js_not_def text_of_def number_of_def)

lemma onBidPlaced_ended:
  assumes "itemId d = Some i" "i \<noteq> []" "amount d = JSNumber a" "bidderName d = Some b" "b \<noteq> []"
    and "\<not> num_le a (Fin 0)"
    and "placeBid s now i a b
           = (Inr \<lparr> success = False, status = AUCTION_ENDED, item = y, previousBidder = pb \<rparr>, s')"
  shows "onBidPlaced s now d =
     ([(Submitter, E_OUTBID \<lparr> ob_itemId = i,
          ob_currentBid = or_number (map_option currentBid y) (Fin 0),
          message = ''Auction has ended'' \<rparr>)], s')"
  using assms by (simp add: onBidPlaced_def js_not_def text_of_def number_of_def)

section \<open>Facts about the example data\<close>

lemma rolex_fields: "item_id rolex = ''1''" "version rolex = Fin 0"
  by (simp_all add: rolex_def)

lemma digits_examples:
  "int_digits 5000 = ''5000''" "int_digits 60000 = ''60000''" "int_digits 0 = ''0''"
  "int_digits 5100 = ''5100''" "int_digits 1 = ''1''" "int_digits 1000 = ''1000''"
  by (simp_all add: int_digits_def nat_digits.simps digit_char_def)

lemma seeded_eq: "seeded = [(''auction:item:1'',
   [(''id'', ''1''), (''title'', ''Vintage Rolex Submariner''), (''startingPrice'', ''5000''),
    (''currentBid'', ''5000''), (''highestBidder'', []),
    (''endsAt'', ''60000''), (''ended'', ''false''),
    (''version'', ''0'')])]"
  by (simp add: seeded_def rolex_def saveItem_def HSET_def hGetAll_def AUCTION_KEY_PREFIX_def
      digits_examples bool_toString_def)

lemma tonumber_examples:
  "lua_tonumber (Some ''5000'') = Some (Fin 5000)" "lua_tonumber (Some ''60000'') = Some (Fin 60000)"
  "lua_tonumber (Some ''0'') = Some (Fin 0)" "lua_tonumber (Some ''5100'') = Some (Fin 5100)"
  "lua_tonumber (Some ''1'') = Some (Fin 1)"
  using parse_int_digits(3) [of 5000] parse_int_digits(3) [of 60000] parse_int_digits(3) [of 0]
    parse_int_digits(3) [of 5100] parse_int_digits(3) [of 1]
  by (simp_all add: digits_examples)

lemma parse_examples:
  "parseFloat (Some ''5000'') = Fin 5000" "parseFloat (Some ''5100'') = Fin 5100"
  "parseInt (Some ''60000'') = Fin 60000" "parseInt (Some ''0'') = Fin 0"
  "parseInt (Some ''1'') = Fin 1"
  using parse_int_digits(2) [of 5000] parse_int_digits(2) [of 5100] parse_int_digits(1) [of 60000]
    parse_int_digits(1) [of 0] parse_int_digits(1) [of 1]
  by (simp_all add: digits_examples)

lemma seeded_reads:
  "EXISTS seeded ''auction:item:1''"
  "HGET seeded ''auction:item:1'' ''ended'' = Some ''false''"
  "HGET seeded ''auction:item:1'' ''endsAt'' = Some ''60000''"
  "HGET seeded ''auction:item:1'' ''currentBid'' = Some ''5000''"
  "HGET seeded ''auction:item:1'' ''version'' = Some ''0''"
  "HGET seeded ''auction:item:1'' ''highestBidder'' = Some []"
  "HGET seeded ''auction:item:1'' ''id'' = Some ''1''"
  by (simp_all add: seeded_eq EXISTS_def HGET_def hGetAll_def)

lemma getItemById_seeded: "getItemById seeded ''1'' = Some rolex"
  using saveItem_getItemById [of rolex 60000 0 "[]"] by (simp add: seeded_def rolex_def)

lemma nat_digits_far: "nat_digits 1000000000000000000000 = ''1000000000000000000000''"
  by (simp add: nat_digits.simps digit_char_def)

lemma exp_notation_far: "js_toString (Fin 1000000000000000000000) = ''1e+21''"
  by (simp add: exp_notation_def nat_digits_far)
     (simp add: nat_digits.simps digit_char_def)

lemma parseInt_far: "parseInt (Some ''1e+21'') = Fin 1"
  by (simp add: parseInt_def is_space_def is_digit_def digits_val_def digit_val_def)

lemma parseFloat_inf: "parseFloat (Some ''inf'') = NaN"
  by (simp add: parseFloat_def is_space_def read_decimal_def is_digit_def)

lemma led_reads:
  "HGET led_by_A ''auction:item:1'' ''id'' = Some ''1''"
  "HGET led_by_A ''auction:item:1'' ''title'' = Some ''Vintage Rolex Submariner''"
  "HGET led_by_A ''auction:item:1'' ''startingPrice'' = Some ''5000''"
  "HGET led_by_A ''auction:item:1'' ''ended'' = Some ''false''"
  "HGET led_by_A ''auction:item:1'' ''endsAt'' = Some ''60000''"
  "HGET led_by_A ''auction:item:1'' ''currentBid'' = Some ''5100''"
  "HGET led_by_A ''auction:item:1'' ''version'' = Some ''1''"
  "HGET led_by_A ''auction:item:1'' ''highestBidder'' = Some ''A''"
  by (simp_all add: led_by_A_def saveItem_HGET rolex_def AUCTION_KEY_PREFIX_def digits_examples
      bool_toString_def)

lemma seeded_reads2:
  "HGET seeded ''auction:item:1'' ''title'' = Some ''Vintage Rolex Submariner''"
  "HGET seeded ''auction:item:1'' ''startingPrice'' = Some ''5000''"
  by (simp_all add: seeded_eq HGET_def hGetAll_def)

section \<open>Stores keyed by id, and what the operations keep\<close>

lemma text_field_HGET: "text_field (hGetAll s k) f = (case HGET s k f of None \<Rightarrow> [] | Some v \<Rightarrow> v)"
  by (simp add: text_field_def HGET_def)

lemma mem_KEYS: "k \<in> set (KEYS s p) \<longleftrightarrow> prefix p k \<and> EXISTS s k"
proof -
  have "EXISTS s k \<Longrightarrow> k \<in> fst ` set s"
    by (force simp: EXISTS_def hGetAll_def split: option.splits dest: map_of_SomeD)
  then show ?thesis by (auto simp: KEYS_def)
qed

lemma distinct_KEYS: "distinct (KEYS s p)"
  by (simp add: KEYS_def)

lemma keyed_by_id_iff:
  "keyed_by_id s \<longleftrightarrow>
     (\<forall>k j. prefix AUCTION_KEY_PREFIX k \<and> HGET s k ''id'' = Some j \<and> j \<noteq> []
        \<longrightarrow> k = AUCTION_KEY_PREFIX @ j)"
proof
  assume kb: "keyed_by_id s"
  show "\<forall>k j. prefix AUCTION_KEY_PREFIX k \<and> HGET s k ''id'' = Some j \<and> j \<noteq> []
        \<longrightarrow> k = AUCTION_KEY_PREFIX @ j"
  proof (intro allI impI)
    fix k j
    assume h: "prefix AUCTION_KEY_PREFIX k \<and> HGET s k ''id'' = Some j \<and> j \<noteq> []"
    then have "k \<in> set (KEYS s AUCTION_KEY_PREFIX)"
      by (auto simp: mem_KEYS dest: HGET_Some_EXISTS)
    with kb h show "k = AUCTION_KEY_PREFIX @ j"
      by (auto simp: keyed_by_id_def text_field_HGET)
  qed
next
  assume "\<forall>k j. prefix AUCTION_KEY_PREFIX k \<and> HGET s k ''id'' = Some j \<and> j \<noteq> []
        \<longrightarrow> k = AUCTION_KEY_PREFIX @ j"
  then show "keyed_by_id s"
    by (auto simp: keyed_by_id_def text_field_HGET mem_KEYS split: option.splits)
qed

lemma only_refl: "only_bids_and_end s s"
  by (simp add: only_bids_and_end_def)

lemma only_trans: "only_bids_and_end s s1 \<Longrightarrow> only_bids_and_end s1 s2 \<Longrightarrow> only_bids_and_end s s2"
  by (simp add: only_bids_and_end_def)

lemma only_keyed: "only_bids_and_end s s' \<Longrightarrow> keyed_by_id s \<Longrightarrow> keyed_by_id s'"
  by (simp add: keyed_by_id_iff only_bids_and_end_def)

lemma only_markAuctionEnded: "only_bids_and_end s (markAuctionEnded s i)"
  by (simp add: only_bids_and_end_def markAuctionEnded_def HGET_HSET)

lemma only_placeBidAtomic: "only_bids_and_end s (snd (placeBidAtomic s i a b now))"
  by (simp add: only_bids_and_end_def placeBidAtomic_eq Let_def HGET_HSET split: option.splits)

lemma only_placeBid: "only_bids_and_end s (snd (placeBid s now i a b))"
proof (cases "getItemById s i")
  case None
  then show ?thesis by (simp add: placeBid_def only_refl)
next
  case (Some x)
  have "snd (placeBid s now i a b) = snd (placeBidAtomic s i a b now)"
    by (simp add: placeBid_def Some Let_def split: prod.splits sum.splits option.splits)
  then show ?thesis by (simp add: only_placeBidAtomic)
qed

lemma onBidPlaced_cases:
  "snd (onBidPlaced s now d) = s
   \<or> (\<exists>i a b. snd (onBidPlaced s now d) = snd (placeBid s now i a b))"
proof (cases "\<exists>i a b. itemId d = Some i \<and> i \<noteq> [] \<and> amount d = JSNumber a \<and> \<not> num_le a (Fin 0)
               \<and> bidderName d = Some b \<and> b \<noteq> []")
  case True
  then show ?thesis using onBidPlaced_store by blast
next
  case False
  have "js_not (itemId d) \<or> js_typeof (amount d) \<noteq> ''number'' \<or> js_not (bidderName d)
      \<or> (\<exists>i a b. itemId d = Some i \<and> i \<noteq> [] \<and> amount d = JSNumber a \<and> bidderName d = Some b
            \<and> b \<noteq> [] \<and> num_le a (Fin 0))"
    using False by (auto simp: js_not_def typeof_number)
  then show ?thesis
    using onBidPlaced_invalid [of d s now] onBidPlaced_not_positive [of d _ _ _ s now]
    by (metis snd_conv)
qed

lemma only_onBidPlaced: "only_bids_and_end s (snd (onBidPlaced s now d))"
  using onBidPlaced_cases [of s now d] by (auto simp: only_refl only_placeBid)

lemma onBidPlaced_no_report: "ended_reports i (fst (onBidPlaced s now d)) = 0"
  by (simp add: onBidPlaced_def ended_reports_def Let_def
      split: prod.splits sum.splits option.splits bool.splits status.splits)


text \<open>
  The loop of the sweep: it appends reports to the reports it was given, at most one for
  every item it reads as not ended; each reported item is marked in the store.
\<close>

lemma sweepLoop_facts:
  "sweepLoop clock n xs s acc = (R, s') \<Longrightarrow>
     only_bids_and_end s s'
     \<and> (\<exists>R'. R = acc @ R'
           \<and> length (filter (\<lambda>r. item_id r = i) R')
               \<le> length (filter (\<lambda>x. item_id x = i \<and> \<not> ended x) xs)
           \<and> (\<forall>r \<in> set R'. ended r \<and> (\<exists>x \<in> set xs. \<not> ended x \<and> r = x\<lparr>ended := True\<rparr>)
                  \<and> HGET s' (AUCTION_KEY_PREFIX @ item_id r) ''ended'' = Some ''true''))"
proof (induction xs arbitrary: n s acc R s')
  case Nil
  then show ?case by (simp add: only_refl)
next
  case (Cons x xs)
  show ?case
  proof (cases "\<not> ended x \<and> isExpired (clock n) (endsAt x)")
    case True
    with Cons.prems
    have rec: "sweepLoop clock (Suc n) xs (markAuctionEnded s (item_id x))
        (acc @ [x\<lparr>ended := True\<rparr>]) = (R, s')"
      by simp
    from Cons.IH [OF rec] obtain R' where
      o: "only_bids_and_end (markAuctionEnded s (item_id x)) s'"
      and R: "R = (acc @ [x\<lparr>ended := True\<rparr>]) @ R'"
      and len: "length (filter (\<lambda>r. item_id r = i) R')
               \<le> length (filter (\<lambda>x. item_id x = i \<and> \<not> ended x) xs)"
      and all: "\<forall>r \<in> set R'. ended r \<and> (\<exists>x \<in> set xs. \<not> ended x \<and> r = x\<lparr>ended := True\<rparr>)
                  \<and> HGET s' (AUCTION_KEY_PREFIX @ item_id r) ''ended'' = Some ''true''"
      by blast
    have o': "only_bids_and_end s s'"
      using only_trans [OF only_markAuctionEnded o] .
    have "HGET (markAuctionEnded s (item_id x)) (AUCTION_KEY_PREFIX @ item_id x) ''ended''
        = Some ''true''"
      by (simp add: markAuctionEnded_def HGET_HSET)
    with o have marked: "HGET s' (AUCTION_KEY_PREFIX @ item_id x) ''ended'' = Some ''true''"
      by (simp add: only_bids_and_end_def)
    show ?thesis
    proof (intro conjI exI [of _ "x\<lparr>ended := True\<rparr> # R'"])
      show "only_bids_and_end s s'" by (rule o')
      show "R = acc @ x\<lparr>ended := True\<rparr> # R'" using R by simp
      show "length (filter (\<lambda>r. item_id r = i) (x\<lparr>ended := True\<rparr> # R'))
          \<le> length (filter (\<lambda>x. item_id x = i \<and> \<not> ended x) (x # xs))"
        using len True by simp
      show "\<forall>r \<in> set (x\<lparr>ended := True\<rparr> # R').
          ended r \<and> (\<exists>y \<in> set (x # xs). \<not> ended y \<and> r = y\<lparr>ended := True\<rparr>)
          \<and> HGET s' (AUCTION_KEY_PREFIX @ item_id r) ''ended'' = Some ''true''"
        using all True marked by auto
    qed
  next
    case False
    with Cons.prems have rec: "sweepLoop clock (Suc n) xs s acc = (R, s')"
      by auto
    from Cons.IH [OF rec] obtain R' where
      o: "only_bids_and_end s s'"
      and R: "R = acc @ R'"
      and len: "length (filter (\<lambda>r. item_id r = i) R')
               \<le> length (filter (\<lambda>x. item_id x = i \<and> \<not> ended x) xs)"
      and all: "\<forall>r \<in> set R'. ended r \<and> (\<exists>x \<in> set xs. \<not> ended x \<and> r = x\<lparr>ended := True\<rparr>)
                  \<and> HGET s' (AUCTION_KEY_PREFIX @ item_id r) ''ended'' = Some ''true''"
      by blast
    show ?thesis
    proof (intro conjI exI [of _ R'])
      show "only_bids_and_end s s'" by (rule o)
      show "R = acc @ R'" by (rule R)
      show "length (filter (\<lambda>r. item_id r = i) R')
          \<le> length (filter (\<lambda>x. item_id x = i \<and> \<not> ended x) (x # xs))"
        using len by simp
      show "\<forall>r \<in> set R'.
          ended r \<and> (\<exists>y \<in> set (x # xs). \<not> ended y \<and> r = y\<lparr>ended := True\<rparr>)
          \<and> HGET s' (AUCTION_KEY_PREFIX @ item_id r) ''ended'' = Some ''true''"
        using all by auto
    qed
  qed
qed

text \<open>
  What the sweep reads. In a store keyed by id, an item read with id \<open>i\<close> is the record
  under the key of \<open>i\<close>; so at most one item has that id, and none that is not ended when
  the flag of that record is set.
\<close>

lemma getAllItems_item:
  assumes "keyed_by_id s" and "x \<in> set (getAllItems s)"
  shows "item_id x \<noteq> [] \<and> x = parseAuctionItem (hGetAll s (AUCTION_KEY_PREFIX @ item_id x))"
proof -
  from assms(2) obtain k where k: "k \<in> set (KEYS s AUCTION_KEY_PREFIX)"
    and id: "text_field (hGetAll s k) ''id'' \<noteq> []" and x: "x = parseAuctionItem (hGetAll s k)"
    by (auto simp: getAllItems_def)
  have ix: "item_id x = text_field (hGetAll s k) ''id''"
    by (simp add: x parseAuctionItem_def)
  from assms(1) k id have "k = AUCTION_KEY_PREFIX @ text_field (hGetAll s k) ''id''"
    by (simp add: keyed_by_id_def)
  with ix id x show ?thesis by simp
qed

lemma length_filter_le_1:
  assumes "distinct ks" and "\<And>k. k \<in> set ks \<Longrightarrow> P k \<Longrightarrow> k = a"
  shows "length (filter P ks) \<le> 1"
proof -
  have "set (filter P ks) \<subseteq> {a}" using assms(2) by auto
  moreover have "distinct (filter P ks)" using assms(1) by simp
  ultimately have "card (set (filter P ks)) \<le> card {a}"
    by (intro card_mono) auto
  moreover have "card (set (filter P ks)) = length (filter P ks)"
    using \<open>distinct (filter P ks)\<close> by (rule distinct_card)
  ultimately show ?thesis by simp
qed

lemma getAllItems_count:
  assumes kb: "keyed_by_id s"
  shows "length (filter (\<lambda>x. item_id x = i \<and> \<not> ended x) (getAllItems s))
     \<le> (if HGET s (AUCTION_KEY_PREFIX @ i) ''ended'' = Some ''true'' then 0 else 1)"
proof -
  define P where "P = (\<lambda>k. text_field (hGetAll s k) ''id'' \<noteq> []
     \<and> item_id (parseAuctionItem (hGetAll s k)) = i \<and> \<not> ended (parseAuctionItem (hGetAll s k)))"
  have eq: "length (filter (\<lambda>x. item_id x = i \<and> \<not> ended x) (getAllItems s))
      = length (filter P (KEYS s AUCTION_KEY_PREFIX))"
    unfolding getAllItems_def filter_map length_map P_def
    by (simp add: o_def conj_commute conj_left_commute)
  have at: "k = AUCTION_KEY_PREFIX @ i \<and> HGET s (AUCTION_KEY_PREFIX @ i) ''ended'' \<noteq> Some ''true''"
    if "k \<in> set (KEYS s AUCTION_KEY_PREFIX)" and "P k" for k
  proof -
    from that have id: "text_field (hGetAll s k) ''id'' = i" "i \<noteq> []"
      and ne: "\<not> ended (parseAuctionItem (hGetAll s k))"
      by (auto simp: P_def parseAuctionItem_def)
    from kb that(1) id have "k = AUCTION_KEY_PREFIX @ i"
      by (auto simp: keyed_by_id_def)
    with ne show ?thesis by (simp add: parseAuctionItem_def HGET_def)
  qed
  show ?thesis
  proof (cases "HGET s (AUCTION_KEY_PREFIX @ i) ''ended'' = Some ''true''")
    case True
    with at have "filter P (KEYS s AUCTION_KEY_PREFIX) = []"
      by (auto simp: filter_empty_conv)
    with True eq show ?thesis by simp
  next
    case False
    have "length (filter P (KEYS s AUCTION_KEY_PREFIX)) \<le> 1"
      by (rule length_filter_le_1 [OF distinct_KEYS]) (use at in blast)
    with False eq show ?thesis by simp
  qed
qed


lemma ended_reports_append: "ended_reports i (es @ es') = ended_reports i es + ended_reports i es'"
  by (simp add: ended_reports_def)

lemma ended_reports_sweep:
  "ended_reports i (map (\<lambda>x. (AllClients, E_AUCTION_ENDED x)) R)
     = length (filter (\<lambda>r. item_id r = i) R)"
  by (simp add: ended_reports_def filter_map o_def)

lemma sweeperTick_facts:
  assumes kb: "keyed_by_id s" and tick: "sweeperTick s clock = (es, s')"
  shows "only_bids_and_end s s'"
    and "ended_reports i es
           \<le> (if HGET s (AUCTION_KEY_PREFIX @ i) ''ended'' = Some ''true'' then 0 else 1)"
    and "0 < ended_reports i es \<Longrightarrow> HGET s' (AUCTION_KEY_PREFIX @ i) ''ended'' = Some ''true''"
    and "(AllClients, E_AUCTION_ENDED x) \<in> set es \<Longrightarrow>
           HGET s (AUCTION_KEY_PREFIX @ item_id x) ''ended'' \<noteq> Some ''true''
           \<and> HGET s' (AUCTION_KEY_PREFIX @ item_id x) ''ended'' = Some ''true''"
proof -
  obtain R where loop: "sweepLoop clock 0 (getAllItems s) s [] = (R, s')"
    and es: "es = map (\<lambda>x. (AllClients, E_AUCTION_ENDED x)) R"
    using tick by (auto simp: sweeperTick_def checkAndEndExpiredAuctions_def split: prod.splits)
  from sweepLoop_facts [OF loop, of i]
  have o: "only_bids_and_end s s'"
    and len: "length (filter (\<lambda>r. item_id r = i) R)
        \<le> length (filter (\<lambda>x. item_id x = i \<and> \<not> ended x) (getAllItems s))"
    and all: "\<forall>r \<in> set R. ended r
        \<and> (\<exists>y \<in> set (getAllItems s). \<not> ended y \<and> r = y\<lparr>ended := True\<rparr>)
        \<and> HGET s' (AUCTION_KEY_PREFIX @ item_id r) ''ended'' = Some ''true''"
    by auto
  show "only_bids_and_end s s'" by (rule o)
  show "ended_reports i es
      \<le> (if HGET s (AUCTION_KEY_PREFIX @ i) ''ended'' = Some ''true'' then 0 else 1)"
    using len getAllItems_count [OF kb, of i] by (simp add: es ended_reports_sweep)
  show "HGET s' (AUCTION_KEY_PREFIX @ i) ''ended'' = Some ''true''" if "0 < ended_reports i es"
  proof -
    from that have "filter (\<lambda>r. item_id r = i) R \<noteq> []"
      by (simp add: es ended_reports_sweep)
    then obtain r where "r \<in> set R" "item_id r = i"
      by (auto simp: filter_empty_conv)
    with all show ?thesis by auto
  qed
  show "HGET s (AUCTION_KEY_PREFIX @ item_id x) ''ended'' \<noteq> Some ''true''
      \<and> HGET s' (AUCTION_KEY_PREFIX @ item_id x) ''ended'' = Some ''true''"
    if "(AllClients, E_AUCTION_ENDED x) \<in> set es"
  proof -
    from that have xR: "x \<in> set R" by (auto simp: es)
    with all obtain y where y: "y \<in> set (getAllItems s)" "\<not> ended y" "x = y\<lparr>ended := True\<rparr>"
      and m: "HGET s' (AUCTION_KEY_PREFIX @ item_id x) ''ended'' = Some ''true''"
      by blast
    from getAllItems_item [OF kb y(1)]
    have "y = parseAuctionItem (hGetAll s (AUCTION_KEY_PREFIX @ item_id y))" by simp
    from arg_cong [OF this, of ended]
    have "ended y = (HGET s (AUCTION_KEY_PREFIX @ item_id y) ''ended'' = Some ''true'')"
      by (simp add: parseAuctionItem_def HGET_def)
    with y m show ?thesis by simp
  qed
qed

lemma step_facts:
  assumes kb: "keyed_by_id s" and st: "step s a = (es, s')"
  shows "only_bids_and_end s s'"
    and "ended_reports i es
           \<le> (if HGET s (AUCTION_KEY_PREFIX @ i) ''ended'' = Some ''true'' then 0 else 1)"
    and "0 < ended_reports i es \<Longrightarrow> HGET s' (AUCTION_KEY_PREFIX @ i) ''ended'' = Some ''true''"
proof -
  show "only_bids_and_end s s'"
  proof (cases a)
    case (Bid now d)
    with st have "s' = snd (onBidPlaced s now d)" by simp
    then show ?thesis by (simp add: only_onBidPlaced)
  next
    case (Sweep clock)
    with st have "sweeperTick s clock = (es, s')" by simp
    from sweeperTick_facts(1) [OF kb this] show ?thesis .
  qed
  show "ended_reports i es
      \<le> (if HGET s (AUCTION_KEY_PREFIX @ i) ''ended'' = Some ''true'' then 0 else 1)"
  proof (cases a)
    case (Bid now d)
    with st have "es = fst (onBidPlaced s now d)" by simp
    then show ?thesis by (simp add: onBidPlaced_no_report)
  next
    case (Sweep clock)
    with st have "sweeperTick s clock = (es, s')" by simp
    from sweeperTick_facts(2) [OF kb this] show ?thesis .
  qed
  show "HGET s' (AUCTION_KEY_PREFIX @ i) ''ended'' = Some ''true''" if "0 < ended_reports i es"
  proof (cases a)
    case (Bid now d)
    with st have "es = fst (onBidPlaced s now d)" by simp
    with that show ?thesis by (simp add: onBidPlaced_no_report)
  next
    case (Sweep clock)
    with st have "sweeperTick s clock = (es, s')" by simp
    from sweeperTick_facts(3) [OF kb this that] show ?thesis .
  qed
qed

lemma run_facts:
  "keyed_by_id s \<Longrightarrow> run s acts = (es, s') \<Longrightarrow>
     keyed_by_id s' \<and> only_bids_and_end s s'
     \<and> ended_reports i es
           \<le> (if HGET s (AUCTION_KEY_PREFIX @ i) ''ended'' = Some ''true'' then 0 else 1)
     \<and> (0 < ended_reports i es \<longrightarrow> HGET s' (AUCTION_KEY_PREFIX @ i) ''ended'' = Some ''true'')"
proof (induction acts arbitrary: s es s')
  case Nil
  then show ?case by (simp add: only_refl ended_reports_def)
next
  case (Cons a acts)
  obtain e1 s1 where st: "step s a = (e1, s1)" by (cases "step s a")
  obtain e2 s2 where rn: "run s1 acts = (e2, s2)" by (cases "run s1 acts")
  from Cons.prems(2) have res: "es = e1 @ e2" "s' = s2" by (simp_all add: st rn)
  note sf1 = step_facts(1) [OF Cons.prems(1) st]
    and sf2 = step_facts(2) [OF Cons.prems(1) st, where i = i]
    and sf3 = step_facts(3) [OF Cons.prems(1) st, where i = i]
  have kb1: "keyed_by_id s1" using only_keyed [OF sf1 Cons.prems(1)] .
  from Cons.IH [OF kb1 rn] have ih: "keyed_by_id s2" "only_bids_and_end s1 s2"
    "ended_reports i e2
       \<le> (if HGET s1 (AUCTION_KEY_PREFIX @ i) ''ended'' = Some ''true'' then 0 else 1)"
    "0 < ended_reports i e2 \<longrightarrow> HGET s2 (AUCTION_KEY_PREFIX @ i) ''ended'' = Some ''true''"
    by simp_all
  have keep: "HGET s (AUCTION_KEY_PREFIX @ i) ''ended'' = Some ''true''
      \<Longrightarrow> HGET s1 (AUCTION_KEY_PREFIX @ i) ''ended'' = Some ''true''"
    and keep2: "HGET s1 (AUCTION_KEY_PREFIX @ i) ''ended'' = Some ''true''
      \<Longrightarrow> HGET s2 (AUCTION_KEY_PREFIX @ i) ''ended'' = Some ''true''"
    using sf1 ih(2) by (simp_all add: only_bids_and_end_def)
  show ?case
  proof (intro conjI)
    show "keyed_by_id s'" by (simp add: res ih)
    show "only_bids_and_end s s'" using only_trans [OF sf1 ih(2)] by (simp add: res)
    show "ended_reports i es
        \<le> (if HGET s (AUCTION_KEY_PREFIX @ i) ''ended'' = Some ''true'' then 0 else 1)"
    proof (cases "0 < ended_reports i e1")
      case True
      with sf3 have "HGET s1 (AUCTION_KEY_PREFIX @ i) ''ended'' = Some ''true''" by simp
      with ih(3) have "ended_reports i e2 = 0" by simp
      with sf2 show ?thesis by (simp add: res ended_reports_append)
    next
      case False
      then have z: "ended_reports i e1 = 0" by simp
      show ?thesis using ih(3) keep by (auto simp: res ended_reports_append z split: if_splits)
    qed
    show "0 < ended_reports i es \<longrightarrow> HGET s' (AUCTION_KEY_PREFIX @ i) ''ended'' = Some ''true''"
      using sf3 ih(4) keep2 by (auto simp: res ended_reports_append)
  qed
qed

section \<open>The example auction under sweeps and late bids\<close>

text \<open>Marking a record as ended, read as a record; marking twice.\<close>

lemma getItemById_markAuctionEnded:
  "getItemById s i = Some x \<Longrightarrow> getItemById (markAuctionEnded s i) i = Some (x\<lparr>ended := True\<rparr>)"
  by (auto simp: markAuctionEnded_def HGET_HSET getItemById_HGET Let_def split: if_splits)

lemma markAuctionEnded_twice:
  "markAuctionEnded (markAuctionEnded s i) i = markAuctionEnded s i"
  by (simp add: markAuctionEnded_def HSET_idem)

lemma HGET_empty: "HGET [] k f = None"
  by (simp add: HGET_def hGetAll_def)

lemma keyed_seeded: "keyed_by_id seeded"
  unfolding keyed_by_id_iff
  by (auto simp: seeded_def saveItem_HGET rolex_def HGET_empty split: if_splits)

lemma parse_seeded: "parseAuctionItem (hGetAll seeded ''auction:item:1'') = rolex"
  using getItemById_seeded
  by (simp add: getItemById_def AUCTION_KEY_PREFIX_def Let_def split: if_splits)

lemma KEYS_seeded:
  "KEYS seeded AUCTION_KEY_PREFIX = [''auction:item:1'']"
  "KEYS (markAuctionEnded seeded ''1'') AUCTION_KEY_PREFIX = [''auction:item:1'']"
  by (simp_all add: KEYS_def seeded_eq AUCTION_KEY_PREFIX_def EXISTS_def hGetAll_def
      markAuctionEnded_def HSET_def)

lemma getAllItems_seeded: "getAllItems seeded = [rolex]"
  by (simp add: getAllItems_def KEYS_seeded parse_seeded text_field_HGET seeded_reads)

lemma getItemById_ended:
  "getItemById (markAuctionEnded seeded ''1'') ''1'' = Some (rolex\<lparr>ended := True\<rparr>)"
  using getItemById_markAuctionEnded [OF getItemById_seeded] .


lemma ended_reads:
  "HGET (markAuctionEnded seeded ''1'') ''auction:item:1'' ''id'' = Some ''1''"
  "HGET (markAuctionEnded seeded ''1'') ''auction:item:1'' ''ended'' = Some ''true''"
  by (simp_all add: markAuctionEnded_def HGET_HSET AUCTION_KEY_PREFIX_def seeded_reads)

lemma mark_seeded: "HSET seeded ''auction:item:1'' ''ended'' ''true'' = markAuctionEnded seeded ''1''"
  by (simp add: markAuctionEnded_def AUCTION_KEY_PREFIX_def)

lemma getAllItems_ended: "getAllItems (markAuctionEnded seeded ''1'') = [rolex\<lparr>ended := True\<rparr>]"
proof -
  have "parseAuctionItem (hGetAll (markAuctionEnded seeded ''1'') ''auction:item:1'')
      = rolex\<lparr>ended := True\<rparr>"
    using getItemById_ended
    by (simp add: getItemById_def AUCTION_KEY_PREFIX_def Let_def split: if_splits)
  then show ?thesis
    by (simp add: getAllItems_def KEYS_seeded text_field_HGET ended_reads)
qed

lemma rolex_expiry:
  "\<not> ended rolex" "endsAt rolex = Fin 60000" "item_id rolex = ''1''"
  by (simp_all add: rolex_def)

lemma sweep_seeded:
  "sweeperTick seeded (at_time 60001)
     = ([(AllClients, E_AUCTION_ENDED (rolex\<lparr>ended := True\<rparr>))], markAuctionEnded seeded ''1'')"
  by (simp add: sweeperTick_def checkAndEndExpiredAuctions_def getAllItems_seeded rolex_expiry
      isExpired_def num_gt_def at_time_def)

lemma sweep_ended:
  "sweeperTick (markAuctionEnded seeded ''1'') (at_time t) = ([], markAuctionEnded seeded ''1'')"
  by (simp add: sweeperTick_def checkAndEndExpiredAuctions_def getAllItems_ended)

lemma late_bid_seeded:
  "onBidPlaced seeded 60001 (bid ''1'' 6000 ''A'')
     = ([(Submitter, E_OUTBID \<lparr> ob_itemId = ''1'', ob_currentBid = Fin 5000,
                                 message = ''Auction has ended'' \<rparr>)], markAuctionEnded seeded ''1'')"
proof -
  have k: "AUCTION_KEY_PREFIX @ ''1'' = ''auction:item:1''"
    by (simp add: AUCTION_KEY_PREFIX_def)
  have atom: "placeBidAtomic seeded ''1'' (Fin 6000) ''A'' 60001
      = (Inr (- 1), markAuctionEnded seeded ''1'')"
    unfolding placeBidAtomic_eq Let_def k
    by (simp add: seeded_reads tonumber_examples num_gt_def mark_seeded)
  have "placeBid seeded 60001 ''1'' (Fin 6000) ''A''
      = (Inr \<lparr> success = False, status = AUCTION_ENDED, item = Some (rolex\<lparr>ended := True\<rparr>),
               previousBidder = None \<rparr>, markAuctionEnded seeded ''1'')"
    by (simp add: placeBid_def getItemById_seeded atom getItemById_ended)
  from onBidPlaced_ended [OF _ _ _ _ _ _ this, of "bid ''1'' 6000 ''A''"]
  show ?thesis by (simp add: bid_def or_number_def rolex_def)
qed

lemma late_bid_ended:
  "onBidPlaced (markAuctionEnded seeded ''1'') 60002 (bid ''1'' 6000 ''B'')
     = ([(Submitter, E_OUTBID \<lparr> ob_itemId = ''1'', ob_currentBid = Fin 5000,
                                 message = ''Auction has ended'' \<rparr>)], markAuctionEnded seeded ''1'')"
proof -
  have k: "AUCTION_KEY_PREFIX @ ''1'' = ''auction:item:1''"
    by (simp add: AUCTION_KEY_PREFIX_def)
  have ex: "EXISTS (markAuctionEnded seeded ''1'') ''auction:item:1''"
    using ended_reads(1) by (rule HGET_Some_EXISTS)
  have atom: "placeBidAtomic (markAuctionEnded seeded ''1'') ''1'' (Fin 6000) ''B'' 60002
      = (Inr (- 1), markAuctionEnded seeded ''1'')"
    unfolding placeBidAtomic_eq Let_def k
    by (simp add: ex ended_reads(2))
  have "placeBid (markAuctionEnded seeded ''1'') 60002 ''1'' (Fin 6000) ''B''
      = (Inr \<lparr> success = False, status = AUCTION_ENDED, item = Some (rolex\<lparr>ended := True\<rparr>),
               previousBidder = None \<rparr>, markAuctionEnded seeded ''1'')"
    by (simp add: placeBid_def atom getItemById_ended)
  from onBidPlaced_ended [OF _ _ _ _ _ _ this, of "bid ''1'' 6000 ''B''"]
  show ?thesis by (simp add: bid_def or_number_def rolex_def)
qed

section \<open>Arbitration\<close>

text \<open>
  C1, as amended. The outcome of one arbitration call on the hash \<open>k\<close> of auction \<open>i\<close>,
  where \<open>e\<close>, \<open>c\<close> and \<open>v\<close> are the deadline, the current bid and the version as the
  script reads them. No record, or the ended flag set: \<open>-1\<close> (auction ended) and the
  store is left as it is. Flag not set and the clock past the deadline: \<open>-1\<close>, and the
  flag is set in the same call. Otherwise an amount not above the current bid (equal
  included): \<open>0\<close> (bid too low) and no change. Otherwise \<open>1\<close> (accepted), and nothing has
  changed but three fields: the highest bidder is the bidder; the version is one more;
  the current bid is the amount, as the script reads it for every amount and as
  \<open>getItemById\<close> reads it for every amount that is not infinite.
\<close>

theorem arbitrate_decides:
  fixes s :: store and i b k :: string and a :: number and now :: int
  assumes "k = AUCTION_KEY_PREFIX @ i"
  shows
  "(\<not> EXISTS s k \<or> HGET s k ''ended'' = Some ''true''
      \<longrightarrow> placeBidAtomic s i a b now = (Inr (- 1), s))
   \<and> (EXISTS s k \<and> HGET s k ''ended'' \<noteq> Some ''true''
        \<and> lua_tonumber (HGET s k ''endsAt'') = Some e \<and> num_gt (Fin now) e
      \<longrightarrow> placeBidAtomic s i a b now = (Inr (- 1), HSET s k ''ended'' ''true''))
   \<and> (EXISTS s k \<and> HGET s k ''ended'' \<noteq> Some ''true''
        \<and> lua_tonumber (HGET s k ''endsAt'') = Some e \<and> \<not> num_gt (Fin now) e
        \<and> lua_tonumber (HGET s k ''currentBid'') = Some c \<and> num_le a c
      \<longrightarrow> placeBidAtomic s i a b now = (Inr 0, s))
   \<and> (EXISTS s k \<and> HGET s k ''ended'' \<noteq> Some ''true''
        \<and> lua_tonumber (HGET s k ''endsAt'') = Some e \<and> \<not> num_gt (Fin now) e
        \<and> lua_tonumber (HGET s k ''currentBid'') = Some c \<and> \<not> num_le a c
        \<and> lua_tonumber (HGET s k ''version'') = Some v
      \<longrightarrow> (\<exists>s'. placeBidAtomic s i a b now = (Inr 1, s')
            \<and> lua_tonumber (HGET s' k ''currentBid'') = Some a
            \<and> HGET s' k ''highestBidder'' = Some b
            \<and> lua_tonumber (HGET s' k ''version'') = Some (num_add v 1)
            \<and> (\<forall>x. getItemById s' i = Some x \<longrightarrow>
                   highestBidder x = b
                   \<and> (a \<noteq> Infinity \<and> a \<noteq> NegInfinity \<longrightarrow> currentBid x = a)
                   \<and> (\<forall>n. v = Fin n \<longrightarrow> version x = Fin (n + 1)))
            \<and> (\<forall>k' f. k' \<noteq> k \<or> f \<notin> {''currentBid'', ''highestBidder'', ''version''}
                   \<longrightarrow> HGET s' k' f = HGET s k' f)))"
proof (intro conjI impI)
  assume "\<not> EXISTS s k \<or> HGET s k ''ended'' = Some ''true''"
  then show "placeBidAtomic s i a b now = (Inr (- 1), s)"
    using assms by (auto simp: placeBidAtomic_eq Let_def dest: HGET_Some_EXISTS)
next
  assume "EXISTS s k \<and> HGET s k ''ended'' \<noteq> Some ''true''
        \<and> lua_tonumber (HGET s k ''endsAt'') = Some e \<and> num_gt (Fin now) e"
  then show "placeBidAtomic s i a b now = (Inr (- 1), HSET s k ''ended'' ''true'')"
    using assms by (simp add: placeBidAtomic_eq Let_def)
next
  assume "EXISTS s k \<and> HGET s k ''ended'' \<noteq> Some ''true''
        \<and> lua_tonumber (HGET s k ''endsAt'') = Some e \<and> \<not> num_gt (Fin now) e
        \<and> lua_tonumber (HGET s k ''currentBid'') = Some c \<and> num_le a c"
  then show "placeBidAtomic s i a b now = (Inr 0, s)"
    using assms by (simp add: placeBidAtomic_eq Let_def)
next
  assume h: "EXISTS s k \<and> HGET s k ''ended'' \<noteq> Some ''true''
        \<and> lua_tonumber (HGET s k ''endsAt'') = Some e \<and> \<not> num_gt (Fin now) e
        \<and> lua_tonumber (HGET s k ''currentBid'') = Some c \<and> \<not> num_le a c
        \<and> lua_tonumber (HGET s k ''version'') = Some v"
  define s' where "s' = HSET (HSET (HSET s k ''currentBid'' (redis_arg a)) k
      ''highestBidder'' b) k ''version'' (redis_arg (num_add v 1))"
  have run: "placeBidAtomic s i a b now = (Inr 1, s')"
    using h assms by (simp add: placeBidAtomic_eq Let_def s'_def)
  have rd: "HGET s' k ''currentBid'' = Some (redis_arg a)" "HGET s' k ''highestBidder'' = Some b"
    "HGET s' k ''version'' = Some (redis_arg (num_add v 1))"
    by (simp_all add: s'_def HGET_HSET)
  have frame: "\<forall>k' f. k' \<noteq> k \<or> f \<notin> {''currentBid'', ''highestBidder'', ''version''}
      \<longrightarrow> HGET s' k' f = HGET s k' f"
    by (auto simp: s'_def HGET_HSET)
  have app: "highestBidder x = b
        \<and> (a \<noteq> Infinity \<and> a \<noteq> NegInfinity \<longrightarrow> currentBid x = a)
        \<and> (\<forall>n. v = Fin n \<longrightarrow> version x = Fin (n + 1))" if "getItemById s' i = Some x" for x
  proof -
    from that have x: "highestBidder x = b" "currentBid x = parseFloat (Some (redis_arg a))"
      "version x = parseInt (Some (redis_arg (num_add v 1)))"
      by (auto simp: getItemById_HGET assms [symmetric] rd Let_def split: if_splits)
    then show ?thesis
      by (auto simp: parseFloat_redis_arg parse_int_digits)
  qed
  show "\<exists>s'. placeBidAtomic s i a b now = (Inr 1, s')
            \<and> lua_tonumber (HGET s' k ''currentBid'') = Some a
            \<and> HGET s' k ''highestBidder'' = Some b
            \<and> lua_tonumber (HGET s' k ''version'') = Some (num_add v 1)
            \<and> (\<forall>x. getItemById s' i = Some x \<longrightarrow>
                   highestBidder x = b
                   \<and> (a \<noteq> Infinity \<and> a \<noteq> NegInfinity \<longrightarrow> currentBid x = a)
                   \<and> (\<forall>n. v = Fin n \<longrightarrow> version x = Fin (n + 1)))
            \<and> (\<forall>k' f. k' \<noteq> k \<or> f \<notin> {''currentBid'', ''highestBidder'', ''version''}
                   \<longrightarrow> HGET s' k' f = HGET s k' f)"
    using run rd frame app by (intro exI [of _ s']) (simp add: tonumber_redis_arg)
qed

text \<open>
  The four outcomes on the seeded auction: no record; a bid after the deadline; a bid
  equal to the current bid; a bid of 5100.5, which is above it.
\<close>

theorem arbitrate_decides_witness:
  "placeBidAtomic [] ''1'' (Fin 5100) ''A'' 1000 = (Inr (- 1), [])
   \<and> placeBidAtomic seeded ''1'' (Fin 5100) ''A'' 60001
       = (Inr (- 1), HSET seeded ''auction:item:1'' ''ended'' ''true'')
   \<and> placeBidAtomic seeded ''1'' (Fin 5000) ''A'' 1000 = (Inr 0, seeded)
   \<and> (\<exists>s'. placeBidAtomic seeded ''1'' (Frac 5100 D5 0) ''A'' 1000 = (Inr 1, s')
         \<and> lua_tonumber (HGET s' ''auction:item:1'' ''currentBid'') = Some (Frac 5100 D5 0)
         \<and> lua_tonumber (HGET s' ''auction:item:1'' ''version'') = Some (Fin 1)
         \<and> getItemById s' ''1''
             = Some (rolex\<lparr>currentBid := Frac 5100 D5 0, highestBidder := ''A'', version := Fin 1\<rparr>))"
proof -
  have k: "''auction:item:1'' = AUCTION_KEY_PREFIX @ ''1''"
    by (simp add: AUCTION_KEY_PREFIX_def)
  have none: "\<not> EXISTS [] ''auction:item:1''"
    by (simp add: EXISTS_def hGetAll_def)
  have open_: "HGET seeded ''auction:item:1'' ''ended'' \<noteq> Some ''true''"
    by (simp add: seeded_reads)
  have e: "lua_tonumber (HGET seeded ''auction:item:1'' ''endsAt'') = Some (Fin 60000)"
    and c: "lua_tonumber (HGET seeded ''auction:item:1'' ''currentBid'') = Some (Fin 5000)"
    and v: "lua_tonumber (HGET seeded ''auction:item:1'' ''version'') = Some (Fin 0)"
    by (simp_all add: seeded_reads tonumber_examples)
  have cmp: "num_gt (Fin 60001) (Fin 60000)" "\<not> num_gt (Fin 1000) (Fin 60000)"
    "num_le (Fin 5000) (Fin 5000)" "\<not> num_le (Frac 5100 D5 0) (Fin 5000)"
    by (simp_all add: num_gt_def)
  note ex = seeded_reads(1)
  have 1: "placeBidAtomic [] ''1'' (Fin 5100) ''A'' 1000 = (Inr (- 1), [])"
    using arbitrate_decides [OF k, of "[]" "Fin 5100" "''A''" 1000] none by blast
  have 2: "placeBidAtomic seeded ''1'' (Fin 5100) ''A'' 60001
       = (Inr (- 1), HSET seeded ''auction:item:1'' ''ended'' ''true'')"
    using arbitrate_decides [OF k, of seeded "Fin 5100" "''A''" 60001 "Fin 60000"]
      ex open_ e cmp by blast
  have 3: "placeBidAtomic seeded ''1'' (Fin 5000) ''A'' 1000 = (Inr 0, seeded)"
    using arbitrate_decides [OF k, of seeded "Fin 5000" "''A''" 1000 "Fin 60000" "Fin 5000"]
      ex open_ e c cmp by blast
  have "\<exists>s'. placeBidAtomic seeded ''1'' (Frac 5100 D5 0) ''A'' 1000 = (Inr 1, s')
         \<and> lua_tonumber (HGET s' ''auction:item:1'' ''currentBid'') = Some (Frac 5100 D5 0)
         \<and> HGET s' ''auction:item:1'' ''highestBidder'' = Some ''A''
         \<and> lua_tonumber (HGET s' ''auction:item:1'' ''version'') = Some (num_add (Fin 0) 1)
         \<and> (\<forall>x. getItemById s' ''1'' = Some x \<longrightarrow>
                highestBidder x = ''A''
                \<and> (Frac 5100 D5 0 \<noteq> Infinity \<and> Frac 5100 D5 0 \<noteq> NegInfinity
                     \<longrightarrow> currentBid x = Frac 5100 D5 0)
                \<and> (\<forall>n. Fin 0 = Fin n \<longrightarrow> version x = Fin (n + 1)))
         \<and> (\<forall>k' f. k' \<noteq> ''auction:item:1'' \<or> f \<notin> {''currentBid'', ''highestBidder'', ''version''}
                   \<longrightarrow> HGET s' k' f = HGET seeded k' f)"
    using arbitrate_decides [OF k, of seeded "Frac 5100 D5 0" "''A''" 1000 "Fin 60000" "Fin 5000"
        "Fin 0"] ex open_ e c v cmp by blast
  then obtain s' where s': "placeBidAtomic seeded ''1'' (Frac 5100 D5 0) ''A'' 1000 = (Inr 1, s')"
    "lua_tonumber (HGET s' ''auction:item:1'' ''currentBid'') = Some (Frac 5100 D5 0)"
    "lua_tonumber (HGET s' ''auction:item:1'' ''version'') = Some (num_add (Fin 0) 1)"
    and app0: "\<forall>x. getItemById s' ''1'' = Some x \<longrightarrow>
                highestBidder x = ''A''
                \<and> (Frac 5100 D5 0 \<noteq> Infinity \<and> Frac 5100 D5 0 \<noteq> NegInfinity
                     \<longrightarrow> currentBid x = Frac 5100 D5 0)
                \<and> (\<forall>n. Fin 0 = Fin n \<longrightarrow> version x = Fin (n + 1))"
    and frame0: "\<forall>k' f. k' \<noteq> ''auction:item:1'' \<or> f \<notin> {''currentBid'', ''highestBidder'', ''version''}
                   \<longrightarrow> HGET s' k' f = HGET seeded k' f"
    by blast
  have app: "highestBidder x = ''A'' \<and> currentBid x = Frac 5100 D5 0 \<and> version x = Fin 1"
    if "getItemById s' ''1'' = Some x" for x
    using app0 that by simp
  have frame: "HGET s' ''auction:item:1'' f = HGET seeded ''auction:item:1'' f"
    if "f \<notin> {''currentBid'', ''highestBidder'', ''version''}" for f
    using frame0 that by blast
  have rest: "HGET s' ''auction:item:1'' ''id'' = Some ''1''"
    "HGET s' ''auction:item:1'' ''title'' = Some ''Vintage Rolex Submariner''"
    "HGET s' ''auction:item:1'' ''startingPrice'' = Some ''5000''"
    "HGET s' ''auction:item:1'' ''endsAt'' = Some ''60000''"
    "HGET s' ''auction:item:1'' ''ended'' = Some ''false''"
    by (simp_all add: frame seeded_reads seeded_reads2)
  obtain x where x: "getItemById s' ''1'' = Some x"
    by (simp add: getItemById_HGET k [symmetric] rest Let_def)
  then have "item_id x = ''1''" "title x = ''Vintage Rolex Submariner''"
    "startingPrice x = Fin 5000" "endsAt x = Fin 60000" "\<not> ended x"
    by (auto simp: getItemById_HGET k [symmetric] rest parse_examples Let_def)
  with app [OF x] have "x = rolex\<lparr>currentBid := Frac 5100 D5 0, highestBidder := ''A'',
      version := Fin 1\<rparr>"
    by (cases x) (simp add: rolex_def)
  with x s' have 4: "\<exists>s'. placeBidAtomic seeded ''1'' (Frac 5100 D5 0) ''A'' 1000 = (Inr 1, s')
         \<and> lua_tonumber (HGET s' ''auction:item:1'' ''currentBid'') = Some (Frac 5100 D5 0)
         \<and> lua_tonumber (HGET s' ''auction:item:1'' ''version'') = Some (Fin 1)
         \<and> getItemById s' ''1''
             = Some (rolex\<lparr>currentBid := Frac 5100 D5 0, highestBidder := ''A'', version := Fin 1\<rparr>)"
    by simp
  from 1 2 3 4 show ?thesis by blast
qed

text \<open>
  C1 as stated fails for an infinite amount, which the handler lets through. The script
  accepts \<open>Infinity\<close> against 5000 and Redis stores the text \<open>inf\<close>, which the script
  reads back as the amount but \<open>parseFloat\<close> as \<open>NaN\<close>: the current bid of the record
  that \<open>getItemById\<close> returns is not the amount.
\<close>

theorem infinite_bid_reads_as_NaN:
  "fst (placeBidAtomic seeded ''1'' Infinity ''A'' 1000) = Inr 1
   \<and> HGET (snd (placeBidAtomic seeded ''1'' Infinity ''A'' 1000)) ''auction:item:1''
         ''currentBid'' = Some ''inf''
   \<and> map_option currentBid
         (getItemById (snd (placeBidAtomic seeded ''1'' Infinity ''A'' 1000)) ''1'') = Some NaN"
proof -
  define s1 where "s1 = HSET (HSET (HSET seeded ''auction:item:1'' ''currentBid'' ''inf'')
      ''auction:item:1'' ''highestBidder'' ''A'') ''auction:item:1'' ''version'' ''1''"
  have k: "AUCTION_KEY_PREFIX @ ''1'' = ''auction:item:1''"
    by (simp add: AUCTION_KEY_PREFIX_def)
  have run: "placeBidAtomic seeded ''1'' Infinity ''A'' 1000 = (Inr 1, s1)"
    unfolding placeBidAtomic_eq Let_def k
    by (simp add: seeded_reads tonumber_examples num_gt_def s1_def digits_examples)
  have "map_option currentBid (getItemById s1 ''1'') = Some NaN"
    by (simp add: getItemById_HGET k s1_def HGET_HSET seeded_reads parseFloat_inf Let_def)
  moreover have "HGET s1 ''auction:item:1'' ''currentBid'' = Some ''inf''"
    by (simp add: s1_def HGET_HSET)
  ultimately show ?thesis by (simp add: run)
qed

text \<open>
  C2. Once the ended flag of a record is set, every arbitration call on it returns \<open>-1\<close>
  (auction ended), whatever the amount, and the store stays as it is: current bid,
  highest bidder, version and deadline keep their values through any number of calls.
\<close>

theorem ended_is_final:
  assumes "HGET s (AUCTION_KEY_PREFIX @ i) ''ended'' = Some ''true''"
  shows "arbitrate_all s i calls = (map (\<lambda>_. Inr (- 1)) calls, s)"
proof (induction calls)
  case Nil
  then show ?case by simp
next
  case (Cons call calls)
  obtain a b now where call: "call = (a, b, now)" by (cases call)
  have "placeBidAtomic s i a b now = (Inr (- 1), s)"
    using assms by (simp add: placeBidAtomic_eq HGET_Some_EXISTS)
  with Cons show ?case by (simp add: call)
qed

theorem ended_is_final_witness:
  "HGET (markAuctionEnded seeded ''1'') (AUCTION_KEY_PREFIX @ ''1'') ''ended'' = Some ''true''
   \<and> arbitrate_all (markAuctionEnded seeded ''1'') ''1''
        [(Fin 9000, ''A'', 1000), (Infinity, ''B'', 2000)]
      = ([Inr (- 1), Inr (- 1)], markAuctionEnded seeded ''1'')"
proof -
  have h: "HGET (markAuctionEnded seeded ''1'') (AUCTION_KEY_PREFIX @ ''1'') ''ended'' = Some ''true''"
    by (simp add: markAuctionEnded_def HGET_HSET)
  from ended_is_final [OF h, of "[(Fin 9000, ''A'', 1000), (Infinity, ''B'', 2000)]"] h
  show ?thesis by simp
qed

text \<open>
  One call keeps a record readable (deadline and current bid are numbers) and either
  returns 1 and writes the next version, or returns 0 or -1 and leaves the version.
\<close>

lemma arbitrate_step:
  assumes k: "k = AUCTION_KEY_PREFIX @ i"
    and ex: "EXISTS s k"
    and e: "lua_tonumber (HGET s k ''endsAt'') = Some e"
    and c: "lua_tonumber (HGET s k ''currentBid'') = Some c"
    and v: "HGET s k ''version'' = Some (int_digits v)"
    and run: "placeBidAtomic s i a b now = (r, s')"
  shows "EXISTS s' k \<and> lua_tonumber (HGET s' k ''endsAt'') = Some e
     \<and> (\<exists>c'. lua_tonumber (HGET s' k ''currentBid'') = Some c')
     \<and> (r = Inr 1 \<and> HGET s' k ''version'' = Some (int_digits (v + 1))
          \<or> (r = Inr 0 \<or> r = Inr (- 1)) \<and> HGET s' k ''version'' = Some (int_digits v))"
proof -
  have tv: "lua_tonumber (HGET s k ''version'') = Some (Fin v)"
    by (simp add: v parse_int_digits)
  show ?thesis
    using run ex e c tv v unfolding placeBidAtomic_eq Let_def k [symmetric]
    by (auto simp: HGET_HSET EXISTS_HSET tonumber_redis_arg split: if_splits)
qed

lemma arbitrate_all_version:
  assumes k: "k = AUCTION_KEY_PREFIX @ i"
  shows "EXISTS s k \<Longrightarrow> lua_tonumber (HGET s k ''endsAt'') = Some e
    \<Longrightarrow> lua_tonumber (HGET s k ''currentBid'') = Some c
    \<Longrightarrow> HGET s k ''version'' = Some (int_digits v)
    \<Longrightarrow> arbitrate_all s i calls = (rs, s')
    \<Longrightarrow> set rs \<subseteq> {Inr 1, Inr 0, Inr (- 1)}
        \<and> HGET s' k ''version'' = Some (int_digits (v + int (count_list rs (Inr 1))))"
proof (induction calls arbitrary: s c v rs s')
  case Nil
  then show ?case by simp
next
  case (Cons call calls)
  obtain a b now where call: "call = (a, b, now)" by (cases call)
  obtain r s1 where r: "placeBidAtomic s i a b now = (r, s1)" by (cases "placeBidAtomic s i a b now")
  obtain rs1 s2 where rs1: "arbitrate_all s1 i calls = (rs1, s2)"
    by (cases "arbitrate_all s1 i calls")
  from Cons.prems(5) have res: "rs = r # rs1" "s' = s2"
    by (simp_all add: call r rs1)
  from arbitrate_step [OF k Cons.prems(1-4) r]
  obtain c' where s1: "EXISTS s1 k" "lua_tonumber (HGET s1 k ''endsAt'') = Some e"
    "lua_tonumber (HGET s1 k ''currentBid'') = Some c'"
    and cases: "r = Inr 1 \<and> HGET s1 k ''version'' = Some (int_digits (v + 1))
          \<or> (r = Inr 0 \<or> r = Inr (- 1)) \<and> HGET s1 k ''version'' = Some (int_digits v)"
    by blast
  from cases show ?case
  proof
    assume acc: "r = Inr 1 \<and> HGET s1 k ''version'' = Some (int_digits (v + 1))"
    from Cons.IH [OF s1 _ rs1, of "v + 1"] acc
    show ?thesis by (simp add: res add.assoc)
  next
    assume rej: "(r = Inr 0 \<or> r = Inr (- 1)) \<and> HGET s1 k ''version'' = Some (int_digits v)"
    from Cons.IH [OF s1 _ rs1, of v] rej
    show ?thesis by (auto simp: res)
  qed
qed

text \<open>
  C3. A record is saved with version 0 and then receives any sequence of arbitration
  calls. No call fails, and the version that is read from the store afterwards (by the
  script and by \<open>parseAuctionItem\<close> alike) is the number of calls that returned 1
  (accepted): each accepted bid adds exactly one, a rejected bid adds nothing.
\<close>

theorem version_counts_accepted:
  assumes "version x = Fin 0"
    and "arbitrate_all (saveItem s x) (item_id x) calls = (rs, s')"
  shows "set rs \<subseteq> {Inr 1, Inr 0, Inr (- 1)}
     \<and> lua_tonumber (HGET s' (AUCTION_KEY_PREFIX @ item_id x) ''version'')
         = Some (Fin (int (count_list rs (Inr 1))))
     \<and> parseInt (HGET s' (AUCTION_KEY_PREFIX @ item_id x) ''version'')
         = Fin (int (count_list rs (Inr 1)))"
proof -
  define k where "k = AUCTION_KEY_PREFIX @ item_id x"
  have ex: "EXISTS (saveItem s x) k"
    by (rule HGET_Some_EXISTS [of _ _ "''id''"]) (simp add: saveItem_HGET k_def)
  have e: "lua_tonumber (HGET (saveItem s x) k ''endsAt'') = Some (endsAt x)"
    and c: "lua_tonumber (HGET (saveItem s x) k ''currentBid'') = Some (currentBid x)"
    by (simp_all add: saveItem_HGET k_def tonumber_js_toString del: js_toString.simps)
  have v: "HGET (saveItem s x) k ''version'' = Some (int_digits 0)"
    by (simp add: saveItem_HGET k_def assms(1))
  from arbitrate_all_version [OF k_def ex e c v assms(2)]
  show ?thesis by (simp add: k_def parse_int_digits)
qed

theorem version_counts_accepted_witness:
  "version rolex = Fin 0
   \<and> fst (arbitrate_all (saveItem [] rolex) (item_id rolex)
          [(Fin 5100, ''A'', 1000), (Fin 5100, ''B'', 1001), (Fin 9000, ''C'', 60001)])
        = [Inr 1, Inr 0, Inr (- 1)]
   \<and> parseInt (HGET (snd (arbitrate_all (saveItem [] rolex) (item_id rolex)
          [(Fin 5100, ''A'', 1000), (Fin 5100, ''B'', 1001), (Fin 9000, ''C'', 60001)]))
        (AUCTION_KEY_PREFIX @ item_id rolex) ''version'') = Fin 1"
proof -
  define calls :: "(number \<times> string \<times> int) list" where
    "calls = [(Fin 5100, ''A'', 1000), (Fin 5100, ''B'', 1001), (Fin 9000, ''C'', 60001)]"
  define k where "k = ''auction:item:1''"
  define s1 where "s1 = HSET (HSET (HSET seeded k ''currentBid'' ''5100'') k
      ''highestBidder'' ''A'') k ''version'' ''1''"
  have k: "AUCTION_KEY_PREFIX @ ''1'' = k" by (simp add: AUCTION_KEY_PREFIX_def k_def)
  note rd = seeded_reads [folded k_def]
  have step1: "placeBidAtomic seeded ''1'' (Fin 5100) ''A'' 1000 = (Inr 1, s1)"
    unfolding placeBidAtomic_eq Let_def k
    by (simp add: rd tonumber_examples num_gt_def s1_def digits_examples)
  have rd1: "EXISTS s1 k" "HGET s1 k ''ended'' = Some ''false''"
    "HGET s1 k ''endsAt'' = Some ''60000''" "HGET s1 k ''currentBid'' = Some ''5100''"
    by (simp_all add: s1_def HGET_HSET EXISTS_HSET rd)
  have step2: "placeBidAtomic s1 ''1'' (Fin 5100) ''B'' 1001 = (Inr 0, s1)"
    unfolding placeBidAtomic_eq Let_def k
    by (simp add: rd1 tonumber_examples num_gt_def)
  have step3: "placeBidAtomic s1 ''1'' (Fin 9000) ''C'' 60001
      = (Inr (- 1), HSET s1 k ''ended'' ''true'')"
    unfolding placeBidAtomic_eq Let_def k
    by (simp add: rd1 tonumber_examples num_gt_def)
  have run: "arbitrate_all (saveItem [] rolex) (item_id rolex) calls
      = ([Inr 1, Inr 0, Inr (- 1)], HSET s1 k ''ended'' ''true'')"
    by (simp add: calls_def seeded_def [symmetric] rolex_fields step1 step2 step3)
  from version_counts_accepted [OF rolex_fields(2) run]
  have "parseInt (HGET (HSET s1 k ''ended'' ''true'') (AUCTION_KEY_PREFIX @ item_id rolex)
      ''version'') = Fin 1"
    by simp
  with run rolex_fields(2) show ?thesis
    unfolding calls_def [symmetric] by simp
qed

section \<open>The store operations\<close>

text \<open>
  C7. \<open>markAuctionEnded\<close> writes \<open>true\<close> into the field \<open>ended\<close> of the auction's hash and
  leaves every other field of every hash as it was; read as a record, the item is the
  same with \<open>ended\<close> set (current bid, highest bidder, version, deadline, title and
  starting price unchanged). On a record that is already ended the store does not change
  at all, and marking twice is marking once. The operation has no failing branch.
\<close>

theorem markEnded_frame:
  "HGET (markAuctionEnded s i) k f
     = (if k = AUCTION_KEY_PREFIX @ i \<and> f = ''ended'' then Some ''true'' else HGET s k f)
   \<and> (\<forall>x. getItemById s i = Some x \<longrightarrow>
         getItemById (markAuctionEnded s i) i = Some (x\<lparr>ended := True\<rparr>))
   \<and> (HGET s (AUCTION_KEY_PREFIX @ i) ''ended'' = Some ''true'' \<longrightarrow> markAuctionEnded s i = s)
   \<and> markAuctionEnded (markAuctionEnded s i) i = markAuctionEnded s i"
  by (auto simp: markAuctionEnded_def HGET_HSET HSET_same HSET_idem getItemById_HGET Let_def
      split: if_splits)

theorem markEnded_frame_witness:
  "getItemById seeded ''1'' = Some rolex
   \<and> getItemById (markAuctionEnded seeded ''1'') ''1'' = Some (rolex\<lparr>ended := True\<rparr>)
   \<and> HGET (markAuctionEnded seeded ''1'') (AUCTION_KEY_PREFIX @ ''1'') ''ended'' = Some ''true''
   \<and> markAuctionEnded (markAuctionEnded seeded ''1'') ''1'' = markAuctionEnded seeded ''1''"
proof -
  note a = markEnded_frame [of seeded "''1''" "AUCTION_KEY_PREFIX @ ''1''" "''ended''"]
  from a have h: "HGET (markAuctionEnded seeded ''1'') (AUCTION_KEY_PREFIX @ ''1'') ''ended''
      = Some ''true''"
    by simp
  from a getItemById_seeded
  have g: "getItemById (markAuctionEnded seeded ''1'') ''1'' = Some (rolex\<lparr>ended := True\<rparr>)"
    by blast
  from markEnded_frame [of "markAuctionEnded seeded ''1''" "''1''" "AUCTION_KEY_PREFIX @ ''1''"
      "''ended''"] h
  have "markAuctionEnded (markAuctionEnded seeded ''1'') ''1'' = markAuctionEnded seeded ''1''"
    by blast
  with h g getItemById_seeded show ?thesis by blast
qed

text \<open>
  C9, as amended. An item whose id is not empty and whose deadline and version are whole
  numbers below \<open>10^21\<close> in magnitude is read back by \<open>getItemById\<close> exactly as
  \<open>saveItem\<close> stored it. Starting price and current bid, read with \<open>parseFloat\<close>, may be
  any number, whole or not.
\<close>

theorem roundtrip_nonempty_id:
  assumes "item_id x \<noteq> []"
    and "endsAt x = Fin e" and "\<bar>e\<bar> < 10 ^ 21"
    and "version x = Fin v" and "\<bar>v\<bar> < 10 ^ 21"
  shows "getItemById (saveItem s x) (item_id x) = Some x"
  using assms by (rule saveItem_getItemById)

text \<open>An item with prices 19.99 and 5100.5: the texts in the store and the item read back.\<close>

theorem roundtrip_nonempty_id_witness:
  "item_id teapot \<noteq> [] \<and> endsAt teapot = Fin 60000 \<and> \<bar>60000 :: int\<bar> < 10 ^ 21
   \<and> version teapot = Fin 3 \<and> \<bar>3 :: int\<bar> < 10 ^ 21
   \<and> HGET (saveItem [] teapot) ''auction:item:7'' ''startingPrice'' = Some ''19.99''
   \<and> HGET (saveItem [] teapot) ''auction:item:7'' ''currentBid'' = Some ''5100.5''
   \<and> getItemById (saveItem [] teapot) (item_id teapot) = Some teapot"
proof -
  have h: "item_id teapot \<noteq> []" "endsAt teapot = Fin 60000" "\<bar>60000 :: int\<bar> < 10 ^ 21"
    "version teapot = Fin 3" "\<bar>3 :: int\<bar> < 10 ^ 21"
    by (simp_all add: teapot_def)
  have t: "HGET (saveItem [] teapot) ''auction:item:7'' ''startingPrice'' = Some ''19.99''"
    "HGET (saveItem [] teapot) ''auction:item:7'' ''currentBid'' = Some ''5100.5''"
    by (simp_all add: saveItem_HGET teapot_def AUCTION_KEY_PREFIX_def frac_notation_def
        nat_digits.simps digit_char_def)
  from roundtrip_nonempty_id [OF h, of "[]"] h t show ?thesis by blast
qed

text \<open>
  C9 as stated fails. An item with an empty id is stored but never read back:
  \<open>getItemById\<close> answers \<open>null\<close> when the \<open>id\<close> field is empty. And a whole deadline of
  \<open>10^21\<close> is written as \<open>1e+21\<close>, of which \<open>parseInt\<close> reads the leading 1.
\<close>

theorem roundtrip_counterexample:
  "getItemById (saveItem [] nameless) (item_id nameless) = None
   \<and> map_option endsAt (getItemById (saveItem [] far_ahead) (item_id far_ahead)) = Some (Fin 1)"
proof -
  have "getItemById (saveItem [] nameless) (item_id nameless) = None"
    by (simp add: getItemById_HGET saveItem_HGET nameless_def)
  moreover have "map_option endsAt (getItemById (saveItem [] far_ahead) (item_id far_ahead))
      = Some (Fin 1)"
    by (simp add: getItemById_HGET saveItem_HGET far_ahead_def exp_notation_far parseInt_far
        del: js_toString.simps)
  ultimately show ?thesis by simp
qed

section \<open>The bid result\<close>

text \<open>\<open>placeBid\<close> is the interleaved call with nothing in between.\<close>

lemma placeBid_alone: "placeBid_interleaved id id s now i a b = placeBid s now i a b"
  by (simp add: placeBid_interleaved_def placeBid_def Let_def
      split: option.splits prod.splits sum.splits)

lemma num_le_refl: "a \<notin> {NaN, Infinity, NegInfinity} \<Longrightarrow> num_le a a"
  by (cases a) simp_all

text \<open>
  C8, as amended. \<open>placeBid\<close> reads the record, runs the script and reads the record again, and other
  handlers may get at the store in between. The item of its result is the record as
  \<open>getItemById\<close> reads it at the second read, from the store that the script and
  whatever ran after it have left (no item when there was no record at the first read).

  In particular: a record is open at both clock readings, and two bidders bid the same
  amount \<open>a\<close>, which is finite and above the current bid. Call first bidder the one whose
  script Redis runs first. The first bidder gets \<open>BID_ACCEPTED\<close> and the second
  \<open>BID_TOO_LOW\<close>, and the item of both results shows \<open>a\<close> and the first bidder. That
  holds when the second bidder's script runs before the first bidder's second read, and
  it holds when the second bidder read the record before the first bidder's script ran:
  the item reported is the one read after the script, not the one read before it.
\<close>

theorem bid_result_is_reread:
  fixes others1 others2 :: "store \<Rightarrow> store"
  assumes k: "k = AUCTION_KEY_PREFIX @ i"
  shows
  "(placeBid_interleaved others1 others2 s now i q b = (Inr res, s') \<longrightarrow>
      item res = getItemById s' i
      \<and> (getItemById s i = None \<longrightarrow> s' = s)
      \<and> (getItemById s i \<noteq> None \<longrightarrow>
            s' = others2 (snd (placeBidAtomic (others1 s) i q b now))))
   \<and> (getItemById s i \<noteq> None \<and> HGET s k ''ended'' \<noteq> Some ''true''
        \<and> lua_tonumber (HGET s k ''endsAt'') = Some e
        \<and> \<not> num_gt (Fin now1) e \<and> \<not> num_gt (Fin now2) e
        \<and> lua_tonumber (HGET s k ''currentBid'') = Some c \<and> \<not> num_le a c
        \<and> lua_tonumber (HGET s k ''version'') = Some v
        \<and> a \<notin> {NaN, Infinity, NegInfinity}
      \<longrightarrow> (\<exists>r1 r2 x s1.
             s1 = snd (placeBidAtomic s i a b1 now1)
             \<and> placeBid_interleaved id id s now1 i a b1 = (Inr r1, s1)
             \<and> placeBid_interleaved id (\<lambda>t. snd (placeBidAtomic t i a b2 now2)) s now1 i a b1
                 = (Inr r1, s1)
             \<and> success r1 \<and> status r1 = BID_ACCEPTED \<and> item r1 = Some x
             \<and> placeBid_interleaved (\<lambda>t. snd (placeBidAtomic t i a b1 now1)) id s now2 i a b2
                 = (Inr r2, s1)
             \<and> placeBid_interleaved id id s1 now2 i a b2 = (Inr r2, s1)
             \<and> \<not> success r2 \<and> status r2 = BID_TOO_LOW \<and> item r2 = Some x
             \<and> currentBid x = a \<and> highestBidder x = b1))"
proof (rule conjI)
  show "placeBid_interleaved others1 others2 s now i q b = (Inr res, s') \<longrightarrow>
      item res = getItemById s' i
      \<and> (getItemById s i = None \<longrightarrow> s' = s)
      \<and> (getItemById s i \<noteq> None \<longrightarrow>
            s' = others2 (snd (placeBidAtomic (others1 s) i q b now)))"
    by (auto simp: placeBid_interleaved_def Let_def
        split: option.splits prod.splits sum.splits if_splits)
next
  show "getItemById s i \<noteq> None \<and> HGET s k ''ended'' \<noteq> Some ''true''
        \<and> lua_tonumber (HGET s k ''endsAt'') = Some e
        \<and> \<not> num_gt (Fin now1) e \<and> \<not> num_gt (Fin now2) e
        \<and> lua_tonumber (HGET s k ''currentBid'') = Some c \<and> \<not> num_le a c
        \<and> lua_tonumber (HGET s k ''version'') = Some v
        \<and> a \<notin> {NaN, Infinity, NegInfinity}
      \<longrightarrow> (\<exists>r1 r2 x s1.
             s1 = snd (placeBidAtomic s i a b1 now1)
             \<and> placeBid_interleaved id id s now1 i a b1 = (Inr r1, s1)
             \<and> placeBid_interleaved id (\<lambda>t. snd (placeBidAtomic t i a b2 now2)) s now1 i a b1
                 = (Inr r1, s1)
             \<and> success r1 \<and> status r1 = BID_ACCEPTED \<and> item r1 = Some x
             \<and> placeBid_interleaved (\<lambda>t. snd (placeBidAtomic t i a b1 now1)) id s now2 i a b2
                 = (Inr r2, s1)
             \<and> placeBid_interleaved id id s1 now2 i a b2 = (Inr r2, s1)
             \<and> \<not> success r2 \<and> status r2 = BID_TOO_LOW \<and> item r2 = Some x
             \<and> currentBid x = a \<and> highestBidder x = b1)"
  proof (rule impI)
  assume h: "getItemById s i \<noteq> None \<and> HGET s k ''ended'' \<noteq> Some ''true''
        \<and> lua_tonumber (HGET s k ''endsAt'') = Some e
        \<and> \<not> num_gt (Fin now1) e \<and> \<not> num_gt (Fin now2) e
        \<and> lua_tonumber (HGET s k ''currentBid'') = Some c \<and> \<not> num_le a c
        \<and> lua_tonumber (HGET s k ''version'') = Some v
        \<and> a \<notin> {NaN, Infinity, NegInfinity}"
  from h obtain j where id: "HGET s k ''id'' = Some j" "j \<noteq> []"
    by (auto simp: getItemById_HGET k [symmetric] Let_def split: if_splits)
  from h obtain x0 where x0: "getItemById s i = Some x0" by auto
  define s1 where "s1 = HSET (HSET (HSET s k ''currentBid'' (redis_arg a)) k
      ''highestBidder'' b1) k ''version'' (redis_arg (num_add v 1))"
  have ex: "EXISTS s k" using id by (auto dest: HGET_Some_EXISTS)
  have rd: "HGET s1 k ''id'' = Some j" "HGET s1 k ''ended'' \<noteq> Some ''true''"
    "lua_tonumber (HGET s1 k ''endsAt'') = Some e"
    "lua_tonumber (HGET s1 k ''currentBid'') = Some a"
    "HGET s1 k ''currentBid'' = Some (redis_arg a)" "HGET s1 k ''highestBidder'' = Some b1"
    using id h by (simp_all add: s1_def HGET_HSET tonumber_redis_arg)
  have ex1: "EXISTS s1 k" using rd(1) by (rule HGET_Some_EXISTS)
  have a1: "placeBidAtomic s i a b1 now1 = (Inr 1, s1)"
    using ex h by (simp add: placeBidAtomic_eq k [symmetric] s1_def)
  have "num_le a a" using h by (intro num_le_refl) simp
  then have a2: "placeBidAtomic s1 i a b2 now2 = (Inr 0, s1)"
    using ex1 rd h by (simp add: placeBidAtomic_eq k [symmetric])
  obtain x where x: "getItemById s1 i = Some x" "currentBid x = a" "highestBidder x = b1"
    using rd id(2) h
    by (simp add: getItemById_HGET k [symmetric] parseFloat_redis_arg Let_def)
  define r1 where "r1 = \<lparr> success = True, status = BID_ACCEPTED, item = Some x,
      previousBidder = (if highestBidder x0 = [] then None else Some (highestBidder x0)) \<rparr>"
  define r2 where "r2 = \<lparr> success = False, status = BID_TOO_LOW, item = Some x,
      previousBidder = None \<rparr>"
  have u1: "placeBid_interleaved id id s now1 i a b1 = (Inr r1, s1)"
    by (simp add: placeBid_interleaved_def x0 a1 x r1_def)
  have u1': "placeBid_interleaved id (\<lambda>t. snd (placeBidAtomic t i a b2 now2)) s now1 i a b1
      = (Inr r1, s1)"
    by (simp add: placeBid_interleaved_def x0 a1 a2 x r1_def)
  have u2: "placeBid_interleaved (\<lambda>t. snd (placeBidAtomic t i a b1 now1)) id s now2 i a b2
      = (Inr r2, s1)"
    by (simp add: placeBid_interleaved_def x0 a1 a2 x r2_def)
  have u2': "placeBid_interleaved id id s1 now2 i a b2 = (Inr r2, s1)"
    by (simp add: placeBid_interleaved_def a2 x r2_def)
  show "\<exists>r1 r2 x s1.
             s1 = snd (placeBidAtomic s i a b1 now1)
             \<and> placeBid_interleaved id id s now1 i a b1 = (Inr r1, s1)
             \<and> placeBid_interleaved id (\<lambda>t. snd (placeBidAtomic t i a b2 now2)) s now1 i a b1
                 = (Inr r1, s1)
             \<and> success r1 \<and> status r1 = BID_ACCEPTED \<and> item r1 = Some x
             \<and> placeBid_interleaved (\<lambda>t. snd (placeBidAtomic t i a b1 now1)) id s now2 i a b2
                 = (Inr r2, s1)
             \<and> placeBid_interleaved id id s1 now2 i a b2 = (Inr r2, s1)
             \<and> \<not> success r2 \<and> status r2 = BID_TOO_LOW \<and> item r2 = Some x
             \<and> currentBid x = a \<and> highestBidder x = b1"
    using u1 u1' u2 u2' x a1
    by (intro exI [of _ r1] exI [of _ r2] exI [of _ x] exI [of _ s1]) (simp add: r1_def r2_def)
  qed
qed

text \<open>
  User1 and User2 bid 5500 on the seeded auction, which stands at 5000. User2's call has
  read the record, at 5000, before User1's script runs; its own script runs after it.
  User2 is told \<open>BID_TOO_LOW\<close> with the record at 5500, led by User1.
\<close>

theorem bid_result_is_reread_witness:
  "getItemById seeded ''1'' = Some rolex \<and> currentBid rolex = Fin 5000
   \<and> (\<exists>r1 r2 s1.
         placeBid_interleaved id id seeded 1000 ''1'' (Fin 5500) ''User1'' = (Inr r1, s1)
         \<and> success r1 \<and> status r1 = BID_ACCEPTED
         \<and> item r1 = Some (rolex\<lparr>currentBid := Fin 5500, highestBidder := ''User1'',
                                  version := Fin 1\<rparr>)
         \<and> placeBid_interleaved (\<lambda>t. snd (placeBidAtomic t ''1'' (Fin 5500) ''User1'' 1000)) id
               seeded 1001 ''1'' (Fin 5500) ''User2'' = (Inr r2, s1)
         \<and> \<not> success r2 \<and> status r2 = BID_TOO_LOW
         \<and> item r2 = Some (rolex\<lparr>currentBid := Fin 5500, highestBidder := ''User1'',
                                  version := Fin 1\<rparr>))"
proof -
  have k: "''auction:item:1'' = AUCTION_KEY_PREFIX @ ''1''"
    by (simp add: AUCTION_KEY_PREFIX_def)
  define s1 where "s1 = HSET (HSET (HSET seeded ''auction:item:1'' ''currentBid'' ''5500'')
      ''auction:item:1'' ''highestBidder'' ''User1'') ''auction:item:1'' ''version'' ''1''"
  have dg: "int_digits 5500 = ''5500''"
    by (simp add: int_digits_def nat_digits.simps digit_char_def)
  have pf: "parseFloat (Some ''5500'') = Fin 5500"
    using parse_int_digits(2) [of 5500] by (simp add: dg)
  have a1: "placeBidAtomic seeded ''1'' (Fin 5500) ''User1'' 1000 = (Inr 1, s1)"
    unfolding placeBidAtomic_eq Let_def k [symmetric]
    by (simp add: seeded_reads tonumber_examples num_gt_def s1_def dg digits_examples)
  have x: "getItemById s1 ''1''
      = Some (rolex\<lparr>currentBid := Fin 5500, highestBidder := ''User1'', version := Fin 1\<rparr>)"
    by (simp add: getItemById_HGET k [symmetric] s1_def HGET_HSET seeded_reads seeded_reads2
        parse_examples pf rolex_def)
  have h: "getItemById seeded ''1'' \<noteq> None \<and> HGET seeded ''auction:item:1'' ''ended'' \<noteq> Some ''true''
      \<and> lua_tonumber (HGET seeded ''auction:item:1'' ''endsAt'') = Some (Fin 60000)
      \<and> \<not> num_gt (Fin 1000) (Fin 60000) \<and> \<not> num_gt (Fin 1001) (Fin 60000)
      \<and> lua_tonumber (HGET seeded ''auction:item:1'' ''currentBid'') = Some (Fin 5000)
      \<and> \<not> num_le (Fin 5500) (Fin 5000)
      \<and> lua_tonumber (HGET seeded ''auction:item:1'' ''version'') = Some (Fin 0)
      \<and> Fin 5500 \<notin> {NaN, Infinity, NegInfinity}"
    by (simp add: getItemById_seeded seeded_reads tonumber_examples num_gt_def)
  have "\<exists>r1 r2 y t1.
      t1 = snd (placeBidAtomic seeded ''1'' (Fin 5500) ''User1'' 1000)
      \<and> placeBid_interleaved id id seeded 1000 ''1'' (Fin 5500) ''User1'' = (Inr r1, t1)
      \<and> placeBid_interleaved id (\<lambda>t. snd (placeBidAtomic t ''1'' (Fin 5500) ''User2'' 1001))
            seeded 1000 ''1'' (Fin 5500) ''User1'' = (Inr r1, t1)
      \<and> success r1 \<and> status r1 = BID_ACCEPTED \<and> item r1 = Some y
      \<and> placeBid_interleaved (\<lambda>t. snd (placeBidAtomic t ''1'' (Fin 5500) ''User1'' 1000)) id
            seeded 1001 ''1'' (Fin 5500) ''User2'' = (Inr r2, t1)
      \<and> placeBid_interleaved id id t1 1001 ''1'' (Fin 5500) ''User2'' = (Inr r2, t1)
      \<and> \<not> success r2 \<and> status r2 = BID_TOO_LOW \<and> item r2 = Some y
      \<and> currentBid y = Fin 5500 \<and> highestBidder y = ''User1''"
    by (rule bid_result_is_reread [OF k, where s = seeded and e = "Fin 60000"
          and ?now1.0 = 1000 and ?now2.0 = 1001 and c = "Fin 5000" and a = "Fin 5500"
          and v = "Fin 0" and ?b1.0 = "''User1''" and ?b2.0 = "''User2''",
          THEN conjunct2, THEN mp, OF h])
  then obtain r1 r2 y t1 where r:
    "t1 = snd (placeBidAtomic seeded ''1'' (Fin 5500) ''User1'' 1000)"
    "placeBid_interleaved id id seeded 1000 ''1'' (Fin 5500) ''User1'' = (Inr r1, t1)"
    "success r1" "status r1 = BID_ACCEPTED" "item r1 = Some y"
    "placeBid_interleaved (\<lambda>t. snd (placeBidAtomic t ''1'' (Fin 5500) ''User1'' 1000)) id
       seeded 1001 ''1'' (Fin 5500) ''User2'' = (Inr r2, t1)"
    "\<not> success r2" "status r2 = BID_TOO_LOW" "item r2 = Some y"
    by (elim exE conjE) (rule that)
  have t1: "t1 = s1" using r(1) a1 by simp
  have "item r1 = getItemById t1 ''1''"
    using bid_result_is_reread [OF k, where ?others1.0 = id and ?others2.0 = id and s = seeded
        and now = 1000 and q = "Fin 5500" and b = "''User1''" and res = r1 and s' = t1,
        THEN conjunct1, THEN mp, OF r(2)]
    by (rule conjunct1)
  with r(5) x t1 have y: "y = rolex\<lparr>currentBid := Fin 5500, highestBidder := ''User1'',
      version := Fin 1\<rparr>"
    by simp
  have c0: "currentBid rolex = Fin 5000" by (simp add: rolex_def)
  have "\<exists>r1 r2 s1.
         placeBid_interleaved id id seeded 1000 ''1'' (Fin 5500) ''User1'' = (Inr r1, s1)
         \<and> success r1 \<and> status r1 = BID_ACCEPTED
         \<and> item r1 = Some (rolex\<lparr>currentBid := Fin 5500, highestBidder := ''User1'',
                                  version := Fin 1\<rparr>)
         \<and> placeBid_interleaved (\<lambda>t. snd (placeBidAtomic t ''1'' (Fin 5500) ''User1'' 1000)) id
               seeded 1001 ''1'' (Fin 5500) ''User2'' = (Inr r2, s1)
         \<and> \<not> success r2 \<and> status r2 = BID_TOO_LOW
         \<and> item r2 = Some (rolex\<lparr>currentBid := Fin 5500, highestBidder := ''User1'',
                                  version := Fin 1\<rparr>)"
    using r(2-9) unfolding y by (intro exI [of _ r1] exI [of _ r2] exI [of _ t1] conjI)
  with getItemById_seeded c0 show ?thesis by (intro conjI)
qed

text \<open>
  C8 as stated fails for an infinite amount. User1 bids \<open>Infinity\<close> and is accepted; Redis
  stores the text \<open>inf\<close>. User2 then bids the same amount and gets \<open>BID_TOO_LOW\<close>, and the
  item reported is the record read after the script, but its current bid is \<open>NaN\<close>, which
  is what \<open>parseFloat\<close> makes of \<open>inf\<close>, not the winner's amount.
\<close>

theorem infinite_bid_result_shows_NaN:
  "placeBid_interleaved id id seeded 1000 ''1'' Infinity ''User1''
     = (Inr \<lparr> success = True, status = BID_ACCEPTED,
              item = Some (rolex\<lparr>currentBid := NaN, highestBidder := ''User1'', version := Fin 1\<rparr>),
              previousBidder = None \<rparr>,
        HSET (HSET (HSET seeded ''auction:item:1'' ''currentBid'' ''inf'') ''auction:item:1''
          ''highestBidder'' ''User1'') ''auction:item:1'' ''version'' ''1'')
   \<and> placeBid_interleaved id id
         (HSET (HSET (HSET seeded ''auction:item:1'' ''currentBid'' ''inf'') ''auction:item:1''
            ''highestBidder'' ''User1'') ''auction:item:1'' ''version'' ''1'')
         1001 ''1'' Infinity ''User2''
     = (Inr \<lparr> success = False, status = BID_TOO_LOW,
              item = Some (rolex\<lparr>currentBid := NaN, highestBidder := ''User1'', version := Fin 1\<rparr>),
              previousBidder = None \<rparr>,
        HSET (HSET (HSET seeded ''auction:item:1'' ''currentBid'' ''inf'') ''auction:item:1''
          ''highestBidder'' ''User1'') ''auction:item:1'' ''version'' ''1'')"
proof -
  define s1 where "s1 = HSET (HSET (HSET seeded ''auction:item:1'' ''currentBid'' ''inf'')
      ''auction:item:1'' ''highestBidder'' ''User1'') ''auction:item:1'' ''version'' ''1''"
  have k: "AUCTION_KEY_PREFIX @ ''1'' = ''auction:item:1''"
    by (simp add: AUCTION_KEY_PREFIX_def)
  have inf: "lua_tonumber (Some ''inf'') = Some Infinity"
    using tonumber_redis_arg [of Infinity] by simp
  have rd: "EXISTS s1 ''auction:item:1''" "HGET s1 ''auction:item:1'' ''ended'' = Some ''false''"
    "HGET s1 ''auction:item:1'' ''endsAt'' = Some ''60000''"
    "HGET s1 ''auction:item:1'' ''currentBid'' = Some ''inf''"
    by (simp_all add: s1_def HGET_HSET EXISTS_HSET seeded_reads)
  have a1: "placeBidAtomic seeded ''1'' Infinity ''User1'' 1000 = (Inr 1, s1)"
    unfolding placeBidAtomic_eq Let_def k
    by (simp add: seeded_reads tonumber_examples num_gt_def s1_def digits_examples)
  have a2: "placeBidAtomic s1 ''1'' Infinity ''User2'' 1001 = (Inr 0, s1)"
    unfolding placeBidAtomic_eq Let_def k
    by (simp add: rd tonumber_examples inf num_gt_def)
  have x: "getItemById s1 ''1''
      = Some (rolex\<lparr>currentBid := NaN, highestBidder := ''User1'', version := Fin 1\<rparr>)"
    by (simp add: getItemById_HGET k s1_def HGET_HSET seeded_reads seeded_reads2
        parse_examples parseFloat_inf rolex_def)
  have 1: "placeBid_interleaved id id seeded 1000 ''1'' Infinity ''User1''
     = (Inr \<lparr> success = True, status = BID_ACCEPTED,
              item = Some (rolex\<lparr>currentBid := NaN, highestBidder := ''User1'', version := Fin 1\<rparr>),
              previousBidder = None \<rparr>, s1)"
    by (simp add: placeBid_interleaved_def getItemById_seeded a1 x rolex_def)
  have 2: "placeBid_interleaved id id s1 1001 ''1'' Infinity ''User2''
     = (Inr \<lparr> success = False, status = BID_TOO_LOW,
              item = Some (rolex\<lparr>currentBid := NaN, highestBidder := ''User1'', version := Fin 1\<rparr>),
              previousBidder = None \<rparr>, s1)"
    by (simp add: placeBid_interleaved_def a2 x)
  from 1 2 show ?thesis unfolding s1_def by (rule conjI)
qed

section \<open>Validation of an inbound bid\<close>





text \<open>
  C10. When a message fails the validation of the handler (one of the three fields is
  missing or ill-typed, or the amount is \<open>\<le> 0\<close>), the only emission is an \<open>OUTBID\<close> to
  the submitter whose \<open>currentBid\<close> is 0, for every store, and whose \<open>itemId\<close> is the text
  \<open>unknown\<close> when the submitted \<open>itemId\<close> is empty or absent (the submitted id otherwise).
\<close>

theorem rejection_payload:
  assumes "js_not (itemId d) \<or> js_typeof (amount d) \<noteq> ''number'' \<or> js_not (bidderName d)
           \<or> num_le (number_of (amount d)) (Fin 0)"
  shows "\<exists>p. onBidPlaced s now d = ([(Submitter, E_OUTBID p)], s)
           \<and> ob_currentBid p = Fin 0
           \<and> (js_not (itemId d) \<longrightarrow> ob_itemId p = ''unknown'')
           \<and> (\<not> js_not (itemId d) \<longrightarrow> Some (ob_itemId p) = itemId d)"
  using assms
  by (auto simp: onBidPlaced_def Let_def js_not_def or_text_def text_of_def split: option.splits)

text \<open>A bid of 7000 without an item id, while the auction stands at 5100.\<close>

theorem rejection_payload_witness:
  "(js_not (itemId \<lparr> itemId = None, amount = JSNumber (Fin 7000), bidderName = Some ''A'' \<rparr>)
      \<or> js_typeof (amount \<lparr> itemId = None, amount = JSNumber (Fin 7000), bidderName = Some ''A'' \<rparr>)
           \<noteq> ''number''
      \<or> js_not (bidderName \<lparr> itemId = None, amount = JSNumber (Fin 7000), bidderName = Some ''A'' \<rparr>)
      \<or> num_le (number_of (amount \<lparr> itemId = None, amount = JSNumber (Fin 7000),
                                      bidderName = Some ''A'' \<rparr>)) (Fin 0))
   \<and> onBidPlaced led_by_A 1000 \<lparr> itemId = None, amount = JSNumber (Fin 7000), bidderName = Some ''A'' \<rparr>
       = ([(Submitter, E_OUTBID \<lparr> ob_itemId = ''unknown'', ob_currentBid = Fin 0,
                                   message = ''Invalid bid data'' \<rparr>)], led_by_A)"
proof -
  define d where "d = \<lparr> itemId = None, amount = JSNumber (Fin 7000), bidderName = Some ''A'' \<rparr>"
  have h: "js_not (itemId d) \<or> js_typeof (amount d) \<noteq> ''number'' \<or> js_not (bidderName d)
           \<or> num_le (number_of (amount d)) (Fin 0)"
    by (simp add: d_def js_not_def)
  from rejection_payload [OF h, of led_by_A 1000]
  obtain p where p: "onBidPlaced led_by_A 1000 d = ([(Submitter, E_OUTBID p)], led_by_A)"
    "ob_currentBid p = Fin 0" "js_not (itemId d) \<longrightarrow> ob_itemId p = ''unknown''"
    by blast
  have "message p = ''Invalid bid data''"
    using p(1) by (auto simp: onBidPlaced_def d_def js_not_def)
  with p have "p = \<lparr> ob_itemId = ''unknown'', ob_currentBid = Fin 0, message = ''Invalid bid data'' \<rparr>"
    by (simp add: d_def js_not_def)
  with p(1) h show ?thesis by (simp add: d_def)
qed

section \<open>Who is told of an accepted bid\<close>

text \<open>
  C6. Bidder A leads the seeded auction with 5100 and bidder B bids 5200. The bid is
  accepted, and the \<open>OUTBID\<close> event meant for A is emitted with \<open>io.emit\<close>: its recipient
  is every connected client, the new leader B included, not A alone.
\<close>

theorem outbid_goes_to_all_clients:
  "onBidPlaced led_by_A 2000 (bid ''1'' 5200 ''B'')
   = ([(Submitter, E_BID_ACCEPTED (rolex\<lparr>currentBid := Fin 5200, highestBidder := ''B'', version := Fin 2\<rparr>)),
       (AllClients, E_UPDATE_BID (rolex\<lparr>currentBid := Fin 5200, highestBidder := ''B'', version := Fin 2\<rparr>)),
       (AllClients, E_OUTBID \<lparr> ob_itemId = ''1'', ob_currentBid = Fin 5200,
                      message = ''You have been outbid on Vintage Rolex Submariner'' \<rparr>)],
      HSET (HSET (HSET led_by_A ''auction:item:1'' ''currentBid'' ''5200'') ''auction:item:1''
        ''highestBidder'' ''B'') ''auction:item:1'' ''version'' ''2'')"
proof -
  define s1 where "s1 = HSET (HSET (HSET led_by_A ''auction:item:1'' ''currentBid'' ''5200'')
      ''auction:item:1'' ''highestBidder'' ''B'') ''auction:item:1'' ''version'' ''2''"
  have k: "''auction:item:1'' = AUCTION_KEY_PREFIX @ ''1''"
    by (simp add: AUCTION_KEY_PREFIX_def)
  have dg: "int_digits 5200 = ''5200''" "int_digits 2 = ''2''"
    by (simp_all add: int_digits_def nat_digits.simps digit_char_def)
  have tn: "parseFloat (Some ''5200'') = Fin 5200" "parseInt (Some ''2'') = Fin 2"
    using parse_int_digits(2) [of 5200] parse_int_digits(1) [of 2]
    by (simp_all add: dg)
  have x: "getItemById s1 ''1''
      = Some (rolex\<lparr>currentBid := Fin 5200, highestBidder := ''B'', version := Fin 2\<rparr>)"
    by (simp add: getItemById_HGET k [symmetric] s1_def HGET_HSET led_reads
        parse_examples tn rolex_def)
  have "placeBid led_by_A 2000 ''1'' (Fin 5200) ''B'' =
     (Inr \<lparr> success = True, status = BID_ACCEPTED, item = getItemById s1 ''1'',
            previousBidder = (case HGET led_by_A ''auction:item:1'' ''highestBidder'' of
                                None \<Rightarrow> None | Some p \<Rightarrow> if p = [] then None else Some p) \<rparr>, s1)"
    by (rule placeBid_accept [OF k, where j = "''1''" and e = "Fin 60000" and c = "Fin 5100"
          and v = "Fin 1"])
      (simp_all add: led_reads tonumber_examples tn num_gt_def s1_def dg)
  then have "placeBid led_by_A 2000 ''1'' (Fin 5200) ''B'' =
     (Inr \<lparr> success = True, status = BID_ACCEPTED,
            item = Some (rolex\<lparr>currentBid := Fin 5200, highestBidder := ''B'', version := Fin 2\<rparr>),
            previousBidder = Some ''A'' \<rparr>, s1)"
    by (simp add: x led_reads)
  from onBidPlaced_accepted [OF _ _ _ _ _ _ this, of "bid ''1'' 5200 ''B''"]
  show ?thesis by (simp add: s1_def bid_def rolex_def)
qed

text \<open>Among the emissions of that bid, the \<open>OUTBID\<close> goes to all clients and none goes to one.\<close>

theorem outbid_goes_to_all_clients_witness:
  "(AllClients, E_OUTBID \<lparr> ob_itemId = ''1'', ob_currentBid = Fin 5200,
                  message = ''You have been outbid on Vintage Rolex Submariner'' \<rparr>)
     \<in> set (fst (onBidPlaced led_by_A 2000 (bid ''1'' 5200 ''B'')))
   \<and> (Submitter, E_OUTBID \<lparr> ob_itemId = ''1'', ob_currentBid = Fin 5200,
                  message = ''You have been outbid on Vintage Rolex Submariner'' \<rparr>)
     \<notin> set (fst (onBidPlaced led_by_A 2000 (bid ''1'' 5200 ''B'')))"
  using outbid_goes_to_all_clients by simp

section \<open>Reporting the end of an auction\<close>

text \<open>
  When bids and passes run one after the other, each pass to its end before anything
  else touches the store, the end of an auction is broadcast at most once: a pass
  broadcasts exactly the records whose flag it read as not set, and sets it.
\<close>

lemma passes_report_at_most_once:
  assumes "keyed_by_id s"
  shows "ended_reports i (fst (run s acts)) \<le> 1
     \<and> (HGET s (AUCTION_KEY_PREFIX @ i) ''ended'' = Some ''true''
          \<longrightarrow> ended_reports i (fst (run s acts)) = 0)
     \<and> (0 < ended_reports i (fst (run s acts))
          \<longrightarrow> HGET (snd (run s acts)) (AUCTION_KEY_PREFIX @ i) ''ended'' = Some ''true'')
     \<and> (HGET (snd (run s acts)) (AUCTION_KEY_PREFIX @ i) ''ended'' = Some ''true''
          \<longrightarrow> ended_reports i (fst (run (snd (run s acts)) acts')) = 0)
     \<and> (\<forall>x. (AllClients, E_AUCTION_ENDED x) \<in> set (fst (sweeperTick s clock))
          \<longrightarrow> HGET s (AUCTION_KEY_PREFIX @ item_id x) ''ended'' \<noteq> Some ''true''
              \<and> HGET (snd (sweeperTick s clock)) (AUCTION_KEY_PREFIX @ item_id x) ''ended''
                   = Some ''true'')"
proof -
  obtain es s' where r: "run s acts = (es, s')" by (cases "run s acts")
  obtain es2 s2 where r2: "run s' acts' = (es2, s2)" by (cases "run s' acts'")
  obtain es3 s3 where t: "sweeperTick s clock = (es3, s3)" by (cases "sweeperTick s clock")
  note a = run_facts [OF assms r, of i]
  then have kb': "keyed_by_id s'" by simp
  note b = run_facts [OF kb' r2, of i]
  note c = sweeperTick_facts(4) [OF assms t]
  from a b c show ?thesis by (auto simp: r r2 t split: if_splits)
qed

text \<open>
  C4. The loop of a pass tests the flag \<open>ended\<close> of the items as \<open>getAllItems\<close> read them
  at the start of the pass, not the flag in the store, and marks without a test. So what
  happens to the store while the pass waits for Redis is not seen. On the seeded
  auction, which closes at 60000:

  A pass has read the items. Before its loop runs, a bid arrives at 60001: arbitration
  ends the auction lazily and the bidder is told that it has ended. The loop then runs,
  finds the flag not set in what it read, marks the record again and the timer
  broadcasts it as ended: the record is reported by both paths.

  Two passes overlap: the second has read the items before the first one marks. Each of
  them broadcasts the record as ended.
\<close>

theorem lazily_ended_is_reported_again:
  "onBidPlaced seeded 60001 (bid ''1'' 6000 ''A'')
     = ([(Submitter, E_OUTBID \<lparr> ob_itemId = ''1'', ob_currentBid = Fin 5000,
                                 message = ''Auction has ended'' \<rparr>)],
        markAuctionEnded seeded ''1'')
   \<and> sweeperTick_interleaved (\<lambda>s. snd (onBidPlaced s 60001 (bid ''1'' 6000 ''A'')))
         seeded (at_time 60002)
     = ([(AllClients, E_AUCTION_ENDED (rolex\<lparr>ended := True\<rparr>))], markAuctionEnded seeded ''1'')
   \<and> sweeperTick seeded (at_time 60001)
     = ([(AllClients, E_AUCTION_ENDED (rolex\<lparr>ended := True\<rparr>))], markAuctionEnded seeded ''1'')
   \<and> sweeperTick_interleaved (\<lambda>s. snd (sweeperTick s (at_time 60001))) seeded (at_time 60002)
     = ([(AllClients, E_AUCTION_ENDED (rolex\<lparr>ended := True\<rparr>))], markAuctionEnded seeded ''1'')"
proof -
  have loop: "sweepLoop (at_time 60002) 0 [rolex] (markAuctionEnded seeded ''1'') []
      = ([rolex\<lparr>ended := True\<rparr>], markAuctionEnded seeded ''1'')"
    by (simp add: rolex_expiry isExpired_def num_gt_def at_time_def markAuctionEnded_twice)
  have 1: "sweeperTick_interleaved (\<lambda>s. snd (onBidPlaced s 60001 (bid ''1'' 6000 ''A'')))
         seeded (at_time 60002)
     = ([(AllClients, E_AUCTION_ENDED (rolex\<lparr>ended := True\<rparr>))], markAuctionEnded seeded ''1'')"
    by (simp add: sweeperTick_interleaved_def checkAndEndExpiredAuctions_interleaved_def
        getAllItems_seeded late_bid_seeded loop del: sweepLoop.simps)
  have 2: "sweeperTick_interleaved (\<lambda>s. snd (sweeperTick s (at_time 60001))) seeded (at_time 60002)
     = ([(AllClients, E_AUCTION_ENDED (rolex\<lparr>ended := True\<rparr>))], markAuctionEnded seeded ''1'')"
    by (simp add: sweeperTick_interleaved_def checkAndEndExpiredAuctions_interleaved_def
        getAllItems_seeded sweep_seeded loop del: sweepLoop.simps)
  from late_bid_seeded 1 sweep_seeded 2 show ?thesis by (intro conjI)
qed

text \<open>
  In the first run the flag is set by the bid and one broadcast follows; in the second run
  the two passes make two broadcasts for the one record.
\<close>

theorem lazily_ended_is_reported_again_witness:
  "HGET (snd (onBidPlaced seeded 60001 (bid ''1'' 6000 ''A''))) ''auction:item:1'' ''ended''
     = Some ''true''
   \<and> ended_reports ''1''
        (fst (sweeperTick_interleaved (\<lambda>s. snd (onBidPlaced s 60001 (bid ''1'' 6000 ''A'')))
                seeded (at_time 60002))) = 1
   \<and> ended_reports ''1''
        (fst (sweeperTick seeded (at_time 60001))
         @ fst (sweeperTick_interleaved (\<lambda>s. snd (sweeperTick s (at_time 60001)))
                  seeded (at_time 60002))) = 2"
  using lazily_ended_is_reported_again
  by (simp add: ended_reports_def ended_reads rolex_def)

end
